theory Spec2Isabelle
  imports Complex_Main "HOL-Library.Word" "HOL-Library.Signed_Division"
begin

section \<open>The dm/dmda scheduling policy of \<^verbatim>\<open>pi.c\<close>\<close>

text \<open>
  The development follows \<^verbatim>\<open>src/basic-src/pi.c\<close>: the worker FIFO operations, the
  two decision engines (\<^verbatim>\<open>_dm_push_task\<close> and \<^verbatim>\<open>_dmda_push_task\<close>), the commit
  \<^verbatim>\<open>push_task_on_best_worker\<close>, the execution hooks and the pending list of
  \<^verbatim>\<open>dm_push_task\<close>.

  Conventions of the model.
  \<^item> A C \<^verbatim>\<open>double\<close> is an exact real number or NaN (type \<open>dbl\<close>): NaN propagates
    through arithmetic and makes every comparison false, as in C; rounding, overflow
    and infinities are outside the model, and a division by zero yields NaN.
  \<^item> \<^verbatim>\<open>starpu_timing_now()\<close> is one reading \<open>now\<close> per operation.
  \<^item> C \<^verbatim>\<open>int\<close> is a mathematical integer; the failures that are tracked are the
    division by zero, the failed assertion, the NULL FIFO or task pointer and the
    array index out of range. \<^verbatim>\<open>unsigned\<close> counters are 32-bit words.
  \<^item> Every function that reads the runtime (worker collection, performance models,
    context priorities) takes it as the record \<open>runtime\<close>.
\<close>

subsection \<open>Doubles\<close>

datatype dbl = NaN | Fin real

fun isnan :: "dbl \<Rightarrow> bool" where
  "isnan NaN = True"
| "isnan (Fin _) = False"

fun dadd :: "dbl \<Rightarrow> dbl \<Rightarrow> dbl" where
  "dadd (Fin a) (Fin b) = Fin (a + b)"
| "dadd _ _ = NaN"

fun dsub :: "dbl \<Rightarrow> dbl \<Rightarrow> dbl" where
  "dsub (Fin a) (Fin b) = Fin (a - b)"
| "dsub _ _ = NaN"

fun dmul :: "dbl \<Rightarrow> dbl \<Rightarrow> dbl" where
  "dmul (Fin a) (Fin b) = Fin (a * b)"
| "dmul _ _ = NaN"

fun ddiv :: "dbl \<Rightarrow> dbl \<Rightarrow> dbl" where
  "ddiv (Fin a) (Fin b) = (if b = 0 then NaN else Fin (a / b))"
| "ddiv _ _ = NaN"

fun dlt :: "dbl \<Rightarrow> dbl \<Rightarrow> bool" where
  "dlt (Fin a) (Fin b) = (a < b)"
| "dlt _ _ = False"

definition dgt :: "dbl \<Rightarrow> dbl \<Rightarrow> bool" where
  "dgt a b = dlt b a"

fun dge :: "dbl \<Rightarrow> dbl \<Rightarrow> bool" where
  "dge (Fin a) (Fin b) = (a \<ge> b)"
| "dge _ _ = False"

text \<open>\<^verbatim>\<open>STARPU_MAX(a,b)\<close> is the macro \<^verbatim>\<open>((a) < (b) ? (b) : (a))\<close>.\<close>

definition STARPU_MAX :: "dbl \<Rightarrow> dbl \<Rightarrow> dbl" where
  "STARPU_MAX a b = (if dlt a b then b else a)"

text \<open>\<^verbatim>\<open>_STARPU_IS_ZERO(x)\<close>: the value is a zero.\<close>

definition STARPU_IS_ZERO :: "dbl \<Rightarrow> bool" where
  "STARPU_IS_ZERO a = (a = Fin 0)"

subsection \<open>Failures\<close>

datatype error = DivByZero | AssertFailed | NullFifo | NullTask | OutOfBounds

definition ebind :: "error + 'a \<Rightarrow> ('a \<Rightarrow> error + 'b) \<Rightarrow> error + 'b" where
  "ebind m k = (case m of Inl e \<Rightarrow> Inl e | Inr x \<Rightarrow> k x)"

subsection \<open>Scheduling contexts and priority normalisation\<close>

record sched_ctx =
  min_priority :: int
  max_priority :: int
  min_priority_is_set :: bool
  max_priority_is_set :: bool

text \<open>
  \<^verbatim>\<open>_normalize_prio\<close>: \<^verbatim>\<open>((num_priorities-1)/(max-min)) * (priority - min)\<close>; the
  division is C's integer division (truncating), which traps on a zero divisor.
\<close>

definition normalize_prio :: "(nat \<Rightarrow> sched_ctx) \<Rightarrow> int \<Rightarrow> int \<Rightarrow> nat \<Rightarrow> error + int" where
  "normalize_prio ctxs prio num_priorities sched_ctx_id =
     (let mn = min_priority (ctxs sched_ctx_id);
          mx = max_priority (ctxs sched_ctx_id)
      in if mx - mn = 0 then Inl DivByZero
         else Inr (((num_priorities - 1) sdiv (mx - mn)) * (prio - mn)))"

text \<open>
  The priority-bucket count that \<^verbatim>\<open>initialize_dmda_policy\<close> stores in
  \<^verbatim>\<open>dt->num_priorities\<close>.
\<close>

definition init_num_priorities :: "sched_ctx \<Rightarrow> int" where
  "init_num_priorities c =
     (if min_priority_is_set c \<and> max_priority_is_set c
      then max_priority c - min_priority c + 1 else -1)"

subsection \<open>Data handles, tasks and worker FIFOs\<close>

text \<open>
  A data handle answers \<^verbatim>\<open>starpu_data_query_status\<close>; only \<^verbatim>\<open>is_valid\<close> is used.
\<close>

record data_handle =
  handle_id :: nat
  valid_nodes :: "nat list"

definition is_valid :: "data_handle \<Rightarrow> nat \<Rightarrow> bool" where
  "is_valid h node = (node \<in> set (valid_nodes h))"

text \<open>
  A task. \<open>buffers\<close> lists, for each buffer index, the handle
  (\<^verbatim>\<open>STARPU_TASK_GET_HANDLE\<close>) and the node the codelet designates for it
  (\<^verbatim>\<open>STARPU_CODELET_GET_NODE\<close>); \<open>specific_nodes\<close> is \<^verbatim>\<open>task->cl->specific_nodes\<close>.
\<close>

record task =
  task_id :: nat
  priority :: int
  sched_ctx_id :: nat
  buffers :: "(data_handle \<times> nat) list"
  specific_nodes :: bool
  predicted :: dbl
  predicted_transfer :: dbl
  nimpl :: nat
  has_bundle :: bool

text \<open>\<^verbatim>\<open>struct _starpu_fifo_taskq\<close> (fifo_queues.h).\<close>

record fifo_taskq =
  taskq :: "task list"
  ntasks :: "32 word"
  nprocessed :: "32 word"
  exp_start :: dbl
  exp_end :: dbl
  exp_len :: dbl
  exp_len_per_priority :: "dbl list"
  ntasks_per_priority :: "32 word list"

text \<open>
  The loop \<^verbatim>\<open>for(i = 0; i <= task_prio; i++) a[i] = g(a[i])\<close> over a bucket array,
  and its guarded form \<^verbatim>\<open>if(num_priorities != -1) { task_prio = _normalize_prio(...);
  for ... }\<close> that every horizon update repeats.
\<close>

definition update_buckets :: "('a \<Rightarrow> 'a) \<Rightarrow> int \<Rightarrow> 'a list \<Rightarrow> error + 'a list" where
  "update_buckets g task_prio a =
     (if task_prio < 0 then Inr a
      else if nat task_prio < length a
      then Inr (map g (take (nat task_prio + 1) a) @ drop (nat task_prio + 1) a)
      else Inl OutOfBounds)"

definition for_buckets ::
  "(nat \<Rightarrow> sched_ctx) \<Rightarrow> int \<Rightarrow> task \<Rightarrow> ('a \<Rightarrow> 'a) \<Rightarrow> 'a list \<Rightarrow> error + 'a list" where
  "for_buckets ctxs num_priorities t g a =
     (if num_priorities \<noteq> -1
      then ebind (normalize_prio ctxs (priority t) num_priorities (sched_ctx_id t))
             (\<lambda>task_prio. update_buckets g task_prio a)
      else Inr a)"

subsection \<open>Data-aware pop\<close>

text \<open>\<^verbatim>\<open>count_non_ready_buffers\<close>.\<close>

definition count_non_ready_buffers :: "task \<Rightarrow> nat \<Rightarrow> int" where
  "count_non_ready_buffers t node =
     int (length (filter
       (\<lambda>(handle, cl_node).
          let buffer_node = (if specific_nodes t then cl_node else node)
          in \<not> is_valid handle buffer_node)
       (buffers t)))"

definition INT_MAX :: int where
  "INT_MAX = 2147483647"

text \<open>
  The \<^verbatim>\<open>while (current)\<close> loop of \<^verbatim>\<open>_starpu_fifo_pop_first_ready_task\<close>. The list is
  the queue from \<^verbatim>\<open>current\<close> on and \<open>pos\<close> its position; \<open>best\<close> is the position of
  \<^verbatim>\<open>task\<close>. The result is the final \<^verbatim>\<open>task\<close> and the position of \<^verbatim>\<open>current\<close> when the
  loop is left (\<open>None\<close> when it ran off the end of the list).
\<close>

fun first_ready_scan ::
  "nat \<Rightarrow> int \<Rightarrow> task list \<Rightarrow> nat \<Rightarrow> nat \<Rightarrow> int \<Rightarrow> nat \<times> nat option" where
  "first_ready_scan node first_task_priority [] pos best non_ready_best = (best, None)"
| "first_ready_scan node first_task_priority (current # rest) pos best non_ready_best =
     (if priority current \<ge> first_task_priority
      then let non_ready = count_non_ready_buffers current node
           in if non_ready < non_ready_best
              then (if non_ready = 0 then (pos, Some pos)
                    else first_ready_scan node first_task_priority rest (pos + 1) pos non_ready)
              else first_ready_scan node first_task_priority rest (pos + 1) best non_ready_best
      else first_ready_scan node first_task_priority rest (pos + 1) best non_ready_best)"

text \<open>
  \<^verbatim>\<open>_starpu_fifo_pop_first_ready_task\<close>; \<^verbatim>\<open>starpu_task_list_erase\<close> unlinks the chosen
  list cell, that is the element at the chosen position.
\<close>

definition starpu_fifo_pop_first_ready_task ::
  "(nat \<Rightarrow> sched_ctx) \<Rightarrow> fifo_taskq \<Rightarrow> nat \<Rightarrow> int \<Rightarrow> error + (task option \<times> fifo_taskq)" where
  "starpu_fifo_pop_first_ready_task ctxs fifo_queue node num_priorities =
     (if ntasks fifo_queue = 0 then Inr (None, fifo_queue)
      else
        let q1 = fifo_queue\<lparr>ntasks := ntasks fifo_queue - 1\<rparr>
        in case taskq q1 of
             [] \<Rightarrow> Inr (None, q1)
           | front # _ \<Rightarrow>
               let i = fst (first_ready_scan node (priority front) (taskq q1) 0 0 INT_MAX);
                   t = taskq q1 ! i
               in ebind (for_buckets ctxs num_priorities t (\<lambda>n. n - 1) (ntasks_per_priority q1))
                    (\<lambda>npp. Inr (Some t,
                       q1\<lparr>ntasks_per_priority := npp,
                          taskq := take i (taskq q1) @ drop (Suc i) (taskq q1)\<rparr>)))"

subsection \<open>The runtime the policy reads\<close>

text \<open>
  Everything the policy asks of StarPU, for one task-independent snapshot: the context's
  worker collection in the order of its master iterator (\<open>workers\<close>) and its size
  \<^verbatim>\<open>workers->nworkers\<close>, the constants \<^verbatim>\<open>STARPU_MAXIMPLEMENTATIONS\<close> and
  \<^verbatim>\<open>STARPU_NMAX_SCHED_CTXS\<close>, \<^verbatim>\<open>starpu_worker_can_execute_task_impl\<close> (its result and
  the implementation mask it stores), the performance-model oracle, and the list
  primitives of fifo_queues.c whose results the policy only passes on.
\<close>

record runtime =
  ctxs :: "nat \<Rightarrow> sched_ctx"
  workers :: "nat list"
  nworkers :: nat
  maximpl :: nat
  nmax_sched_ctxs :: nat
  can_execute_task_impl :: "nat \<Rightarrow> task \<Rightarrow> bool \<times> 32 word"
  memory_node :: "nat \<Rightarrow> nat"
  perf_archtype :: "nat \<Rightarrow> nat"
  expected_length :: "task \<Rightarrow> nat \<Rightarrow> nat \<Rightarrow> dbl"
  expected_data_transfer_time :: "nat \<Rightarrow> task \<Rightarrow> dbl"
  expected_energy :: "task \<Rightarrow> nat \<Rightarrow> nat \<Rightarrow> dbl"
  expected_conversion_time :: "task \<Rightarrow> nat \<Rightarrow> nat \<Rightarrow> dbl"
  bundle_expected_length :: "task \<Rightarrow> nat \<Rightarrow> nat \<Rightarrow> dbl"
  bundle_expected_data_transfer_time :: "task \<Rightarrow> nat \<Rightarrow> dbl"
  bundle_expected_energy :: "task \<Rightarrow> nat \<Rightarrow> nat \<Rightarrow> dbl"
  relative_speedup :: "nat \<Rightarrow> dbl"
  worker_is_master_for_child_ctx :: "nat \<Rightarrow> nat \<Rightarrow> nat"
  fifo_get_exp_len_prev_task_list :: "fifo_taskq \<Rightarrow> task \<Rightarrow> nat \<Rightarrow> nat \<Rightarrow> dbl \<times> int"
  fifo_push_sorted_ret :: int

text \<open>
  \<^verbatim>\<open>struct starpu_task_list\<close> and the links of a task in it: the pending list
  \<^verbatim>\<open>main_list\<close> of \<^verbatim>\<open>dm_push_task\<close> is modelled with its pointers. Task memory is a
  map from addresses to cells; a cell holds the task and its \<^verbatim>\<open>next\<close> and \<^verbatim>\<open>prev\<close>.
\<close>

record task_cell =
  cell_task :: task
  cell_next :: "nat option"
  cell_prev :: "nat option"

record task_list =
  list_head :: "nat option"
  list_tail :: "nat option"

type_synonym task_heap = "nat \<Rightarrow> task_cell option"

text \<open>
  \<^verbatim>\<open>struct _starpu_dmda_data\<close>. \<open>queue_array\<close> is sparse: \<open>None\<close> is the NULL slot of
  a worker that never attached. The statistics \<^verbatim>\<open>total_task_cnt\<close>, \<^verbatim>\<open>ready_task_cnt\<close>
  and \<^verbatim>\<open>eager_task_cnt\<close>, which the code touches only under \<^verbatim>\<open>STARPU_VERBOSE\<close>, are
  left out.
\<close>

record dmda_data =
  alpha :: dbl
  beta :: dbl
  gamma :: dbl
  idle_power :: dbl
  queue_array :: "nat \<Rightarrow> fifo_taskq option"
  main_list :: task_list
  num_priorities :: int

text \<open>Run a FIFO update on \<^verbatim>\<open>dt->queue_array[workerid]\<close>; a NULL slot is a crash.\<close>

definition with_fifo ::
  "dmda_data \<Rightarrow> nat \<Rightarrow> (fifo_taskq \<Rightarrow> error + ('a \<times> fifo_taskq)) \<Rightarrow> error + ('a \<times> dmda_data)" where
  "with_fifo dt workerid k =
     (case queue_array dt workerid of
        None \<Rightarrow> Inl NullFifo
      | Some fifo \<Rightarrow>
          ebind (k fifo)
            (\<lambda>(r, fifo'). Inr (r, dt\<lparr>queue_array := (queue_array dt)(workerid \<mapsto> fifo')\<rparr>)))"

subsection \<open>List primitives of fifo_queues.c\<close>

text \<open>
  Modelled from the spec: \<^verbatim>\<open>_starpu_fifo_pop_local_task\<close> (\<open>pop_front()\<close>),
  \<^verbatim>\<open>_starpu_fifo_pop_every_task\<close> (\<open>pop_all()\<close>: "returns the whole sequence atomically
  (the queue becomes empty)") and \<^verbatim>\<open>_starpu_fifo_push_sorted_task\<close> (\<open>push_sorted\<close>:
  "stable priority-descending insert"), which live in StarPU's fifo_queues.c and are
  not part of pi.c. They maintain \<open>ntasks == len(sequence)\<close> and leave the horizon
  fields alone.
\<close>

definition starpu_fifo_pop_local_task :: "fifo_taskq \<Rightarrow> task option \<times> fifo_taskq" where
  "starpu_fifo_pop_local_task fifo =
     (case taskq fifo of
        [] \<Rightarrow> (None, fifo)
      | t # rest \<Rightarrow> (Some t, fifo\<lparr>taskq := rest, ntasks := ntasks fifo - 1\<rparr>))"

definition starpu_fifo_pop_every_task :: "fifo_taskq \<Rightarrow> task list \<times> fifo_taskq" where
  "starpu_fifo_pop_every_task fifo = (taskq fifo, fifo\<lparr>taskq := [], ntasks := 0\<rparr>)"

definition starpu_fifo_push_sorted_task :: "fifo_taskq \<Rightarrow> task \<Rightarrow> fifo_taskq" where
  "starpu_fifo_push_sorted_task fifo t =
     fifo\<lparr>taskq := takeWhile (\<lambda>u. priority t \<le> priority u) (taskq fifo) @ t #
                    dropWhile (\<lambda>u. priority t \<le> priority u) (taskq fifo),
          ntasks := ntasks fifo + 1, nprocessed := nprocessed fifo + 1\<rparr>"

subsection \<open>Pops of the policy\<close>

text \<open>The refresh "Take the opportunity to update start time" that every pop starts with.\<close>

definition refresh_start :: "real \<Rightarrow> fifo_taskq \<Rightarrow> fifo_taskq" where
  "refresh_start now fifo =
     (let f1 = fifo\<lparr>exp_start := STARPU_MAX (Fin now) (exp_start fifo)\<rparr>
      in f1\<lparr>exp_end := dadd (exp_start f1) (exp_len f1)\<rparr>)"

definition dmda_pop_ready_task ::
  "runtime \<Rightarrow> real \<Rightarrow> dmda_data \<Rightarrow> nat \<Rightarrow> error + (task option \<times> dmda_data)" where
  "dmda_pop_ready_task rt now dt workerid =
     with_fifo dt workerid
       (\<lambda>fifo. starpu_fifo_pop_first_ready_task (ctxs rt) (refresh_start now fifo)
                  (memory_node rt workerid) (num_priorities dt))"

definition dmda_pop_task ::
  "real \<Rightarrow> dmda_data \<Rightarrow> nat \<Rightarrow> error + (task option \<times> dmda_data)" where
  "dmda_pop_task now dt workerid =
     with_fifo dt workerid
       (\<lambda>fifo. Inr (starpu_fifo_pop_local_task (refresh_start now fifo)))"

definition dmda_pop_every_task ::
  "real \<Rightarrow> dmda_data \<Rightarrow> nat \<Rightarrow> error + (task list \<times> dmda_data)" where
  "dmda_pop_every_task now dt workerid =
     with_fifo dt workerid
       (\<lambda>fifo. Inr (starpu_fifo_pop_every_task (refresh_start now fifo)))"

subsection \<open>Commit: \<^verbatim>\<open>push_task_on_best_worker\<close>\<close>

text \<open>
  The block \<^verbatim>\<open>exp_end += x; exp_len += x; if(num_priorities != -1) buckets += x\<close>, used
  twice by the commit and twice by \<^verbatim>\<open>dmda_push_task_notify\<close>.
\<close>

definition add_to_horizon ::
  "(nat \<Rightarrow> sched_ctx) \<Rightarrow> int \<Rightarrow> task \<Rightarrow> dbl \<Rightarrow> fifo_taskq \<Rightarrow> error + fifo_taskq" where
  "add_to_horizon cs np t x fifo =
     ebind (for_buckets cs np t (\<lambda>e. dadd e x) (exp_len_per_priority fifo))
       (\<lambda>b. Inr (fifo\<lparr>exp_end := dadd (exp_end fifo) x,
                       exp_len := dadd (exp_len fifo) x,
                       exp_len_per_priority := b\<rparr>))"

text \<open>"Sometimes workers didn't take the tasks as early as we expected".\<close>

definition refresh_start_nan :: "real \<Rightarrow> fifo_taskq \<Rightarrow> fifo_taskq" where
  "refresh_start_nan now fifo =
     (let f1 = fifo\<lparr>exp_start := (if isnan (exp_start fifo) then Fin now
                                   else STARPU_MAX (exp_start fifo) (Fin now))\<rparr>
      in f1\<lparr>exp_end := dadd (exp_start f1) (exp_len f1)\<rparr>)"

text \<open>The residual transfer time against the refreshed \<^verbatim>\<open>exp_end\<close>.\<close>

definition residual_transfer :: "real \<Rightarrow> dbl \<Rightarrow> fifo_taskq \<Rightarrow> dbl" where
  "residual_transfer now predicted_transfer' fifo =
     (if dlt (dadd (Fin now) predicted_transfer') (exp_end fifo) then Fin 0
      else dsub (dadd (Fin now) predicted_transfer') (exp_end fifo))"

text \<open>Lines 330--378: the horizon update under the worker's lock.\<close>

definition push_horizon ::
  "(nat \<Rightarrow> sched_ctx) \<Rightarrow> int \<Rightarrow> real \<Rightarrow> task \<Rightarrow> dbl \<Rightarrow> dbl \<Rightarrow> fifo_taskq
     \<Rightarrow> error + (dbl \<times> fifo_taskq)" where
  "push_horizon cs np now t predicted' predicted_transfer' fifo =
     (let f1 = refresh_start_nan now fifo;
          pt = residual_transfer now predicted_transfer' f1
      in ebind (if \<not> isnan pt then add_to_horizon cs np t pt f1 else Inr f1)
           (\<lambda>f2. ebind (if \<not> isnan predicted' then add_to_horizon cs np t predicted' f2
                          else Inr f2)
             (\<lambda>f3. Inr (pt, f3))))"

text \<open>Lines 396--427: the insertion, sorted (\<open>prio\<close>) or at the tail.\<close>

definition push_insert ::
  "runtime \<Rightarrow> int \<Rightarrow> bool \<Rightarrow> task \<Rightarrow> fifo_taskq \<Rightarrow> error + (int \<times> fifo_taskq)" where
  "push_insert rt np prio t fifo =
     (if prio
      then let f1 = starpu_fifo_push_sorted_task fifo t
           in ebind (for_buckets (ctxs rt) np t (\<lambda>n. n + 1) (ntasks_per_priority f1))
                (\<lambda>b. Inr (fifo_push_sorted_ret rt, f1\<lparr>ntasks_per_priority := b\<rparr>))
      else Inr (0, fifo\<lparr>taskq := taskq fifo @ [t],
                         ntasks := ntasks fifo + 1,
                         nprocessed := nprocessed fifo + 1\<rparr>))"

datatype push_outcome = Committed | Delegated nat

text \<open>
  \<^verbatim>\<open>push_task_on_best_worker\<close>. The result is the returned \<^verbatim>\<open>int\<close>, what happened to
  the task (committed with its prediction slots written, or moved to the child
  context), and the policy data.
\<close>

definition push_task_on_best_worker ::
  "runtime \<Rightarrow> real \<Rightarrow> dmda_data \<Rightarrow> task \<Rightarrow> int \<Rightarrow> dbl \<Rightarrow> dbl \<Rightarrow> bool \<Rightarrow> nat
     \<Rightarrow> error + ((int \<times> push_outcome \<times> task) \<times> dmda_data)" where
  "push_task_on_best_worker rt now dt t best_workerid predicted' predicted_transfer' prio ctx_id =
     (if best_workerid = -1 then Inl AssertFailed
      else
        let child_sched_ctx = worker_is_master_for_child_ctx rt (nat best_workerid) ctx_id
        in if child_sched_ctx \<noteq> nmax_sched_ctxs rt
           then Inr ((0, Delegated child_sched_ctx, t), dt)
           else with_fifo dt (nat best_workerid)
                  (\<lambda>fifo.
                     ebind (push_horizon (ctxs rt) (num_priorities dt) now t
                              predicted' predicted_transfer' fifo)
                       (\<lambda>(pt, f1).
                          let t' = t\<lparr>predicted := predicted', predicted_transfer := pt\<rparr>
                          in ebind (push_insert rt (num_priorities dt) prio t' f1)
                               (\<lambda>(ret, f2). Inr ((ret, Committed, t'), f2)))))"

subsection \<open>Execution hooks and external pushes\<close>

text \<open>
  The two blocks of \<^verbatim>\<open>dmda_pre_exec_hook\<close>: "The transfer is over, get rid of it in
  the completion prediction" and "We now start the computation, get rid of it in the
  completion prediction".
\<close>

definition transfer_is_over ::
  "(nat \<Rightarrow> sched_ctx) \<Rightarrow> int \<Rightarrow> task \<Rightarrow> dbl \<Rightarrow> fifo_taskq \<Rightarrow> error + fifo_taskq" where
  "transfer_is_over cs np t transfer_model fifo =
     (let f1 = fifo\<lparr>exp_len := dsub (exp_len fifo) transfer_model\<rparr>
      in ebind (for_buckets cs np t (\<lambda>e. dsub e transfer_model) (exp_len_per_priority f1))
           (\<lambda>b. Inr (f1\<lparr>exp_len_per_priority := b\<rparr>)))"

definition start_computation ::
  "(nat \<Rightarrow> sched_ctx) \<Rightarrow> int \<Rightarrow> task \<Rightarrow> dbl \<Rightarrow> fifo_taskq \<Rightarrow> error + fifo_taskq" where
  "start_computation cs np t model fifo =
     (let f1 = fifo\<lparr>exp_len := dsub (exp_len fifo) model,
                     exp_start := dadd (exp_start fifo) model\<rparr>
      in ebind (for_buckets cs np t (\<lambda>e. dsub e model) (exp_len_per_priority f1))
           (\<lambda>b. Inr (f1\<lparr>exp_len_per_priority := b\<rparr>)))"

text \<open>
  \<^verbatim>\<open>dmda_pre_exec_hook\<close>; \<open>workerid\<close> is \<^verbatim>\<open>starpu_worker_get_id_check()\<close>.
\<close>

definition dmda_pre_exec_hook ::
  "runtime \<Rightarrow> real \<Rightarrow> dmda_data \<Rightarrow> nat \<Rightarrow> task \<Rightarrow> error + (unit \<times> dmda_data)" where
  "dmda_pre_exec_hook rt now dt workerid t =
     with_fifo dt workerid
       (\<lambda>fifo.
          let model = predicted t;
              transfer_model = predicted_transfer t;
              f1 = refresh_start now fifo
          in ebind
               (if \<not> isnan transfer_model
                then transfer_is_over (ctxs rt) (num_priorities dt) t transfer_model f1
                else Inr f1)
               (\<lambda>f2.
                  ebind
                    (if \<not> isnan model
                     then start_computation (ctxs rt) (num_priorities dt) t model f2
                     else Inr f2)
                    (\<lambda>f3. Inr ((), f3\<lparr>exp_end := dadd (exp_start f3) (exp_len f3)\<rparr>))))"

text \<open>\<^verbatim>\<open>dmda_post_exec_hook\<close>.\<close>

definition dmda_post_exec_hook ::
  "real \<Rightarrow> dmda_data \<Rightarrow> nat \<Rightarrow> task \<Rightarrow> error + (unit \<times> dmda_data)" where
  "dmda_post_exec_hook now dt workerid t =
     with_fifo dt workerid
       (\<lambda>fifo.
          let f1 = fifo\<lparr>exp_start := Fin now\<rparr>
          in Inr ((), f1\<lparr>exp_end := dadd (exp_start f1) (exp_len f1)\<rparr>))"

text \<open>
  \<^verbatim>\<open>dmda_push_task_notify\<close>, in its three steps: the transfer prediction, the length
  prediction ("If there is no prediction available, we consider the task has a null
  length"), and the counters. The result carries the task with the prediction slots
  the function writes.
\<close>

definition notify_transfer ::
  "runtime \<Rightarrow> real \<Rightarrow> int \<Rightarrow> dbl \<Rightarrow> task \<Rightarrow> fifo_taskq \<Rightarrow> error + (task \<times> fifo_taskq)" where
  "notify_transfer rt now np transfer0 t fifo =
     (if \<not> isnan transfer0
      then let pt = residual_transfer now transfer0 fifo
           in ebind (add_to_horizon (ctxs rt) np t pt fifo)
                (\<lambda>f. Inr (t\<lparr>predicted_transfer := pt\<rparr>, f))
      else Inr (t, fifo))"

definition notify_length ::
  "runtime \<Rightarrow> int \<Rightarrow> dbl \<Rightarrow> task \<Rightarrow> fifo_taskq \<Rightarrow> error + (task \<times> fifo_taskq)" where
  "notify_length rt np predicted' t fifo =
     (if \<not> isnan predicted'
      then ebind (add_to_horizon (ctxs rt) np t predicted' fifo)
             (\<lambda>f. Inr (t\<lparr>predicted := predicted'\<rparr>, f))
      else Inr (t, fifo))"

definition notify_count ::
  "runtime \<Rightarrow> int \<Rightarrow> task \<Rightarrow> fifo_taskq \<Rightarrow> error + (task \<times> fifo_taskq)" where
  "notify_count rt np t fifo =
     ebind (for_buckets (ctxs rt) np t (\<lambda>n. n + 1) (ntasks_per_priority fifo))
       (\<lambda>b. Inr (t, fifo\<lparr>ntasks_per_priority := b, ntasks := ntasks fifo + 1\<rparr>))"

definition dmda_push_task_notify ::
  "runtime \<Rightarrow> real \<Rightarrow> dmda_data \<Rightarrow> task \<Rightarrow> nat \<Rightarrow> nat \<Rightarrow> nat \<Rightarrow> error + (task \<times> dmda_data)" where
  "dmda_push_task_notify rt now dt t workerid perf_workerid ctx_id =
     with_fifo dt workerid
       (\<lambda>fifo.
          let perf_arch = perf_archtype rt perf_workerid;
              node = memory_node rt workerid;
              predicted' = expected_length rt t perf_arch (nimpl t);
              transfer0 = expected_data_transfer_time rt node t
          in ebind (notify_transfer rt now (num_priorities dt) transfer0 t
                      (refresh_start_nan now fifo))
               (\<lambda>(t1, f2).
                  ebind (notify_length rt (num_priorities dt) predicted' t1 f2)
                    (\<lambda>(t2, f3). notify_count rt (num_priorities dt) t2 f3)))"

text \<open>
  The horizon invariant: \<^verbatim>\<open>exp_end\<close> is the sum of \<^verbatim>\<open>exp_start\<close> and \<^verbatim>\<open>exp_len\<close>, and it
  is a number (so that the C comparison \<^verbatim>\<open>==\<close> holds as well).
\<close>

definition horizon_ok :: "fifo_taskq \<Rightarrow> bool" where
  "horizon_ok fifo = (exp_end fifo = dadd (exp_start fifo) (exp_len fifo) \<and> \<not> isnan (exp_end fifo))"

definition fifo_ok_at :: "dmda_data \<Rightarrow> nat \<Rightarrow> bool" where
  "fifo_ok_at dt workerid =
     (case queue_array dt workerid of None \<Rightarrow> False | Some fifo \<Rightarrow> horizon_ok fifo)"

subsection \<open>The dm decision: \<^verbatim>\<open>_dm_push_task\<close>\<close>

text \<open>A loop over a list whose body can fail.\<close>

fun efold :: "('a \<Rightarrow> 's \<Rightarrow> error + 's) \<Rightarrow> 'a list \<Rightarrow> 's \<Rightarrow> error + 's" where
  "efold body [] s = Inr s"
| "efold body (x # xs) s = (case body x s of Inl e \<Rightarrow> Inl e | Inr s' \<Rightarrow> efold body xs s')"

text \<open>
  \<^verbatim>\<open>double exp_start = isnan(fifo->exp_start) ? starpu_timing_now() :
  STARPU_MAX(fifo->exp_start, starpu_timing_now())\<close>.
\<close>

definition current_exp_start :: "real \<Rightarrow> fifo_taskq \<Rightarrow> dbl" where
  "current_exp_start now fifo =
     (if isnan (exp_start fifo) then Fin now else STARPU_MAX (exp_start fifo) (Fin now))"

text \<open>
  The condition under which the greedy candidate \<^verbatim>\<open>ntasks_best\<close> is replaced; it is
  written alike in \<^verbatim>\<open>_dm_push_task\<close> and \<^verbatim>\<open>compute_all_performance_predictions\<close>.
\<close>

definition greedy_takes :: "int \<Rightarrow> bool \<Rightarrow> dbl \<Rightarrow> dbl \<Rightarrow> dbl \<Rightarrow> bool" where
  "greedy_takes ntasks_best calibrating ntasks_end ntasks_best_end local_length =
     (ntasks_best = -1
      \<or> (\<not> calibrating \<and> dlt ntasks_end ntasks_best_end)
      \<or> (\<not> calibrating \<and> isnan local_length)
      \<or> (calibrating \<and> isnan local_length \<and> dlt ntasks_end ntasks_best_end))"

text \<open>
  The candidates of a decision: the pairs of a worker of the collection that can execute
  the task and an implementation of its mask; and the test
  \<^verbatim>\<open>isnan(length) || _STARPU_IS_ZERO(length)\<close> that sets \<^verbatim>\<open>unknown\<close>.
\<close>

definition eligible :: "runtime \<Rightarrow> task \<Rightarrow> nat \<Rightarrow> nat \<Rightarrow> bool" where
  "eligible rt t worker n =
     (worker \<in> set (workers rt) \<and> fst (can_execute_task_impl rt worker t) \<and>
      n < maximpl rt \<and> bit (snd (can_execute_task_impl rt worker t)) n)"

definition no_prediction :: "dbl \<Rightarrow> bool" where
  "no_prediction l = (isnan l \<or> STARPU_IS_ZERO l)"

text \<open>The locals of \<^verbatim>\<open>_dm_push_task\<close> that its loops update.\<close>

record dm_state =
  dm_best :: int
  dm_best_exp_end :: dbl
  dm_model_best :: dbl
  dm_transfer_model_best :: dbl
  dm_ntasks_best :: int
  dm_ntasks_best_end :: dbl
  dm_calibrating :: bool
  dm_unknown :: bool
  dm_best_impl :: nat

definition dm_init :: dm_state where
  "dm_init =
     \<lparr>dm_best = -1, dm_best_exp_end = Fin 0, dm_model_best = Fin 0,
      dm_transfer_model_best = Fin 0, dm_ntasks_best = -1, dm_ntasks_best_end = Fin 0,
      dm_calibrating = False, dm_unknown = False, dm_best_impl = 0\<rparr>"

text \<open>
  The body of the loop over \<^verbatim>\<open>nimpl\<close>; \<^verbatim>\<open>impl_mask & (1U << nimpl)\<close> is bit \<open>n\<close> of the
  mask.
\<close>

definition dm_impl_step ::
  "runtime \<Rightarrow> task \<Rightarrow> nat \<Rightarrow> fifo_taskq \<Rightarrow> dbl \<Rightarrow> 32 word \<Rightarrow> nat \<Rightarrow> dm_state \<Rightarrow> dm_state" where
  "dm_impl_step rt t worker fifo exp_start' impl_mask n st =
     (if \<not> bit impl_mask n then st
      else
        let perf_arch = perf_archtype rt worker;
            local_length = expected_length rt t perf_arch n;
            local_penalty = expected_data_transfer_time rt (memory_node rt worker) t;
            ntasks_end = ddiv (Fin (real (unat (ntasks fifo)))) (relative_speedup rt perf_arch);
            st1 = (if greedy_takes (dm_ntasks_best st) (dm_calibrating st) ntasks_end
                        (dm_ntasks_best_end st) local_length
                   then st\<lparr>dm_ntasks_best_end := ntasks_end, dm_ntasks_best := int worker,
                           dm_best_impl := n\<rparr>
                   else st);
            st2 = (if isnan local_length then st1\<lparr>dm_calibrating := True\<rparr> else st1);
            st3 = (if isnan local_length \<or> STARPU_IS_ZERO local_length
                   then st2\<lparr>dm_unknown := True\<rparr> else st2)
        in if dm_unknown st3 then st3
           else
             let exp_end' = dadd (dadd exp_start' (exp_len fifo)) local_length
             in if dm_best st3 = -1 \<or> dlt exp_end' (dm_best_exp_end st3)
                then st3\<lparr>dm_best_exp_end := exp_end', dm_best := int worker,
                         dm_model_best := local_length,
                         dm_transfer_model_best := local_penalty, dm_best_impl := n\<rparr>
                else st3)"

text \<open>The body of the loop over the workers; the FIFO is read before the eligibility test.\<close>

definition dm_worker_step ::
  "runtime \<Rightarrow> real \<Rightarrow> dmda_data \<Rightarrow> task \<Rightarrow> nat \<Rightarrow> dm_state \<Rightarrow> error + dm_state" where
  "dm_worker_step rt now dt t worker st =
     (case queue_array dt worker of
        None \<Rightarrow> Inl NullFifo
      | Some fifo \<Rightarrow>
          let exp_start' = current_exp_start now fifo;
              can = fst (can_execute_task_impl rt worker t);
              impl_mask = snd (can_execute_task_impl rt worker t)
          in if \<not> can then Inr st
             else Inr (fold (dm_impl_step rt t worker fifo exp_start' impl_mask)
                         [0..<maximpl rt] st))"

definition dm_scan :: "runtime \<Rightarrow> real \<Rightarrow> dmda_data \<Rightarrow> task \<Rightarrow> error + dm_state" where
  "dm_scan rt now dt t = efold (dm_worker_step rt now dt t) (workers rt) dm_init"

text \<open>The decision: the scan followed by \<^verbatim>\<open>if (unknown) { best = ntasks_best; ... }\<close>.\<close>

definition dm_decide :: "runtime \<Rightarrow> real \<Rightarrow> dmda_data \<Rightarrow> task \<Rightarrow> error + dm_state" where
  "dm_decide rt now dt t =
     ebind (dm_scan rt now dt t)
       (\<lambda>st. Inr (if dm_unknown st
                    then st\<lparr>dm_best := dm_ntasks_best st, dm_model_best := Fin 0,
                            dm_transfer_model_best := Fin 0\<rparr>
                    else st))"

text \<open>
  The static function \<^verbatim>\<open>_dm_push_task\<close> (the public \<^verbatim>\<open>dm_push_task\<close> is further
  below).
\<close>

definition dm_push_task_internal ::
  "runtime \<Rightarrow> real \<Rightarrow> dmda_data \<Rightarrow> task \<Rightarrow> bool \<Rightarrow> nat
     \<Rightarrow> error + ((int \<times> push_outcome \<times> task) \<times> dmda_data)" where
  "dm_push_task_internal rt now dt t prio ctx_id =
     ebind (dm_decide rt now dt t)
       (\<lambda>st. push_task_on_best_worker rt now dt (t\<lparr>nimpl := dm_best_impl st\<rparr>)
                (dm_best st) (dm_model_best st) (dm_transfer_model_best st) prio ctx_id)"

subsection \<open>The dmda decision: \<^verbatim>\<open>compute_all_performance_predictions\<close>\<close>

definition DBL_MIN :: real where
  "DBL_MIN = 1 / 2 ^ 1022"

definition DBL_MAX :: real where
  "DBL_MAX = (2 - 1 / 2 ^ 52) * 2 ^ 1023"

text \<open>
  Writing \<^verbatim>\<open>a[i][j] = v\<close>. The arrays of \<^verbatim>\<open>_dmda_push_task\<close> are variable-length
  arrays \<^verbatim>\<open>double a[nworkers_ctx][STARPU_MAXIMPLEMENTATIONS]\<close> that start uninitialised:
  they are functions whose initial contents are a parameter.
\<close>

definition upd2 :: "(nat \<Rightarrow> nat \<Rightarrow> dbl) \<Rightarrow> nat \<Rightarrow> nat \<Rightarrow> dbl \<Rightarrow> (nat \<Rightarrow> nat \<Rightarrow> dbl)" where
  "upd2 a i j v = a(i := (a i)(j := v))"

text \<open>The locals of \<^verbatim>\<open>compute_all_performance_predictions\<close> and the arrays it fills.\<close>

record cp_state =
  cp_calibrating :: bool
  cp_max_exp_end :: dbl
  cp_best_exp_end :: dbl
  cp_ntasks_best :: int
  cp_nimpl_best :: int
  cp_ntasks_best_end :: dbl
  cp_unknown :: bool
  cp_worker_ctx :: nat
  local_task_length :: "nat \<Rightarrow> nat \<Rightarrow> dbl"
  exp_end_arr :: "nat \<Rightarrow> nat \<Rightarrow> dbl"
  local_data_penalty :: "nat \<Rightarrow> nat \<Rightarrow> dbl"
  local_energy :: "nat \<Rightarrow> nat \<Rightarrow> dbl"

definition cp_init :: "(nat \<Rightarrow> nat \<Rightarrow> dbl) \<Rightarrow> cp_state" where
  "cp_init garbage =
     \<lparr>cp_calibrating = False, cp_max_exp_end = Fin DBL_MIN, cp_best_exp_end = Fin DBL_MAX,
      cp_ntasks_best = -1, cp_nimpl_best = 0, cp_ntasks_best_end = Fin 0,
      cp_unknown = False, cp_worker_ctx = 0,
      local_task_length = garbage, exp_end_arr = garbage,
      local_data_penalty = garbage, local_energy = garbage\<rparr>"

text \<open>A read \<^verbatim>\<open>a[i]\<close> of a bucket array with a signed index.\<close>

definition read_bucket :: "'a list \<Rightarrow> int \<Rightarrow> error + 'a" where
  "read_bucket a i = (if 0 \<le> i \<and> nat i < length a then Inr (a ! nat i) else Inl OutOfBounds)"

text \<open>
  \<^verbatim>\<open>prev_exp_len\<close> and \<^verbatim>\<open>fifo_ntasks\<close> of a candidate: the FIFO's own values, or under
  \<^verbatim>\<open>sorted_decision\<close> those of the task's priority bucket, or of the linear scan
  \<^verbatim>\<open>_starpu_fifo_get_exp_len_prev_task_list\<close>.
\<close>

definition cand_prev ::
  "runtime \<Rightarrow> dmda_data \<Rightarrow> task \<Rightarrow> bool \<Rightarrow> int \<Rightarrow> nat \<Rightarrow> fifo_taskq \<Rightarrow> nat
     \<Rightarrow> error + (dbl \<times> int)" where
  "cand_prev rt dt t sorted_decision task_prio worker fifo n =
     (if sorted_decision
      then (if num_priorities dt \<noteq> -1
            then ebind (read_bucket (exp_len_per_priority fifo) task_prio)
                   (\<lambda>l. ebind (read_bucket (ntasks_per_priority fifo) task_prio)
                     (\<lambda>c. Inr (l, sint c)))
            else Inr (fifo_get_exp_len_prev_task_list rt fifo t worker n))
      else Inr (exp_len fifo, sint (ntasks fifo)))"

text \<open>
  The three predictions of a candidate, for a task in a bundle or not; the conversion
  time is added to the length when it is positive.
\<close>

definition cand_length :: "runtime \<Rightarrow> task \<Rightarrow> nat \<Rightarrow> nat \<Rightarrow> dbl" where
  "cand_length rt t worker n =
     (let perf_arch = perf_archtype rt worker
      in if has_bundle t then bundle_expected_length rt t perf_arch n
         else let l = expected_length rt t perf_arch n;
                  conversion_time = expected_conversion_time rt t perf_arch n
              in if dgt conversion_time (Fin 0) then dadd l conversion_time else l)"

definition cand_penalty :: "runtime \<Rightarrow> task \<Rightarrow> nat \<Rightarrow> dbl" where
  "cand_penalty rt t worker =
     (if has_bundle t then bundle_expected_data_transfer_time rt t (memory_node rt worker)
      else expected_data_transfer_time rt (memory_node rt worker) t)"

definition cand_energy :: "runtime \<Rightarrow> task \<Rightarrow> nat \<Rightarrow> nat \<Rightarrow> dbl" where
  "cand_energy rt t worker n =
     (if has_bundle t then bundle_expected_energy rt t (perf_archtype rt worker) n
      else expected_energy rt t (perf_archtype rt worker) n)"

text \<open>
  The body of the loop over \<^verbatim>\<open>nimpl\<close>, in the order of the source. First the stores
  of lines 659--681: the horizon before the task into \<^verbatim>\<open>exp_end[worker_ctx][nimpl]\<close>,
  the running maximum, and the three predictions.
\<close>

definition cp_store ::
  "runtime \<Rightarrow> task \<Rightarrow> nat \<Rightarrow> dbl \<Rightarrow> nat \<Rightarrow> dbl \<Rightarrow> cp_state \<Rightarrow> cp_state" where
  "cp_store rt t worker exp_start' n prev_exp_len st =
     (let wc = cp_worker_ctx st;
          e0 = dadd exp_start' prev_exp_len
      in st\<lparr>exp_end_arr := upd2 (exp_end_arr st) wc n e0,
             cp_max_exp_end := (if dgt e0 (cp_max_exp_end st) then e0 else cp_max_exp_end st),
             local_task_length := upd2 (local_task_length st) wc n (cand_length rt t worker n),
             local_data_penalty := upd2 (local_data_penalty st) wc n (cand_penalty rt t worker),
             local_energy := upd2 (local_energy st) wc n (cand_energy rt t worker n)\<rparr>)"

text \<open>Lines 682--729: the greedy candidate and the flags \<^verbatim>\<open>calibrating\<close> and \<^verbatim>\<open>unknown\<close>.\<close>

definition cp_greedy :: "runtime \<Rightarrow> nat \<Rightarrow> nat \<Rightarrow> int \<Rightarrow> cp_state \<Rightarrow> cp_state" where
  "cp_greedy rt worker n fifo_ntasks st =
     (let len = local_task_length st (cp_worker_ctx st) n;
          ntasks_end = ddiv (Fin (real_of_int fifo_ntasks))
                         (relative_speedup rt (perf_archtype rt worker));
          st1 = (if greedy_takes (cp_ntasks_best st) (cp_calibrating st) ntasks_end
                      (cp_ntasks_best_end st) len
                 then st\<lparr>cp_ntasks_best_end := ntasks_end,
                         cp_ntasks_best := int worker, cp_nimpl_best := int n\<rparr>
                 else st);
          st2 = (if isnan len then st1\<lparr>cp_calibrating := True\<rparr> else st1)
      in if isnan len \<or> STARPU_IS_ZERO len then st2\<lparr>cp_unknown := True\<rparr> else st2)"

text \<open>
  Lines 731--744, after \<^verbatim>\<open>if (unknown) continue;\<close>: the horizon with the task, the
  running minimum, and the NaN energy replaced by 0.
\<close>

definition cp_finish :: "dbl \<Rightarrow> nat \<Rightarrow> dbl \<Rightarrow> cp_state \<Rightarrow> cp_state" where
  "cp_finish exp_start' n prev_exp_len st =
     (let wc = cp_worker_ctx st;
          e1 = dadd (dadd exp_start' prev_exp_len) (local_task_length st wc n);
          st1 = st\<lparr>exp_end_arr := upd2 (exp_end_arr st) wc n e1\<rparr>;
          st2 = (if dlt (exp_end_arr st1 wc n) (cp_best_exp_end st1)
                 then st1\<lparr>cp_best_exp_end := exp_end_arr st1 wc n, cp_nimpl_best := int n\<rparr>
                 else st1)
      in if isnan (local_energy st2 wc n)
         then st2\<lparr>local_energy := upd2 (local_energy st2) wc n (Fin 0)\<rparr>
         else st2)"

definition cp_candidate ::
  "runtime \<Rightarrow> task \<Rightarrow> nat \<Rightarrow> dbl \<Rightarrow> nat \<Rightarrow> dbl \<Rightarrow> int \<Rightarrow> cp_state \<Rightarrow> cp_state" where
  "cp_candidate rt t worker exp_start' n prev_exp_len fifo_ntasks st =
     (let st1 = cp_greedy rt worker n fifo_ntasks
                  (cp_store rt t worker exp_start' n prev_exp_len st)
      in if cp_unknown st1 then st1 else cp_finish exp_start' n prev_exp_len st1)"

definition cp_impl_step ::
  "runtime \<Rightarrow> dmda_data \<Rightarrow> task \<Rightarrow> bool \<Rightarrow> int \<Rightarrow> nat \<Rightarrow> fifo_taskq \<Rightarrow> dbl \<Rightarrow> 32 word
     \<Rightarrow> nat \<Rightarrow> cp_state \<Rightarrow> error + cp_state" where
  "cp_impl_step rt dt t sorted_decision task_prio worker fifo exp_start' impl_mask n st =
     (if \<not> bit impl_mask n then Inr st
      else
        ebind (cand_prev rt dt t sorted_decision task_prio worker fifo n)
          (\<lambda>(prev_exp_len, fifo_ntasks).
             if \<not> cp_worker_ctx st < nworkers rt then Inl OutOfBounds
             else Inr (cp_candidate rt t worker exp_start' n prev_exp_len fifo_ntasks st)))"

text \<open>
  What the four arrays hold at \<open>[k][m]\<close>, and what a candidate that went through the
  whole loop body leaves at its own place.
\<close>

definition cp_entry :: "cp_state \<Rightarrow> nat \<Rightarrow> nat \<Rightarrow> dbl \<times> dbl \<times> dbl \<times> dbl" where
  "cp_entry st k m =
     (exp_end_arr st k m, local_task_length st k m, local_data_penalty st k m,
      local_energy st k m)"

definition cand_entry ::
  "runtime \<Rightarrow> task \<Rightarrow> nat \<Rightarrow> nat \<Rightarrow> dbl \<Rightarrow> dbl \<Rightarrow> dbl \<times> dbl \<times> dbl \<times> dbl" where
  "cand_entry rt t worker n exp_start' prev_exp_len =
     (dadd (dadd exp_start' prev_exp_len) (cand_length rt t worker n),
      cand_length rt t worker n,
      cand_penalty rt t worker,
      (if isnan (cand_energy rt t worker n) then Fin 0 else cand_energy rt t worker n))"

text \<open>
  The candidates in the order in which both loops of \<^verbatim>\<open>_dmda_push_task\<close> meet them,
  each as (worker, row, implementation): the row is the value of \<^verbatim>\<open>worker_ctx\<close> when
  the worker is examined, starting from \<open>k\<close>.
\<close>

fun candidates_from :: "runtime \<Rightarrow> task \<Rightarrow> nat \<Rightarrow> nat list \<Rightarrow> (nat \<times> nat \<times> nat) list" where
  "candidates_from rt t k [] = []"
| "candidates_from rt t k (w # ws) =
     (if fst (can_execute_task_impl rt w t)
      then map (\<lambda>n. (w, k, n))
             (filter (bit (snd (can_execute_task_impl rt w t))) [0..<maximpl rt])
           @ candidates_from rt t (k + 1) ws
      else candidates_from rt t k ws)"

definition candidates :: "runtime \<Rightarrow> task \<Rightarrow> (nat \<times> nat \<times> nat) list" where
  "candidates rt t = candidates_from rt t 0 (workers rt)"

text \<open>The number of workers of a list that can execute the task.\<close>

definition nb_exec :: "runtime \<Rightarrow> task \<Rightarrow> nat list \<Rightarrow> nat" where
  "nb_exec rt t ws = length (filter (\<lambda>w. fst (can_execute_task_impl rt w t)) ws)"

text \<open>
  The body of the loop over the workers. The \<^verbatim>\<open>continue\<close> of a worker that cannot
  execute the task skips \<^verbatim>\<open>worker_ctx++\<close>.
\<close>

definition cp_worker_step ::
  "runtime \<Rightarrow> real \<Rightarrow> dmda_data \<Rightarrow> task \<Rightarrow> bool \<Rightarrow> int \<Rightarrow> nat \<Rightarrow> cp_state
     \<Rightarrow> error + cp_state" where
  "cp_worker_step rt now dt t sorted_decision task_prio worker st =
     (case queue_array dt worker of
        None \<Rightarrow> Inl AssertFailed
      | Some fifo \<Rightarrow>
          let exp_start' = current_exp_start now fifo;
              can = fst (can_execute_task_impl rt worker t);
              impl_mask = snd (can_execute_task_impl rt worker t)
          in if \<not> can then Inr st
             else ebind (efold (cp_impl_step rt dt t sorted_decision task_prio worker fifo
                                  exp_start' impl_mask) [0..<maximpl rt] st)
                    (\<lambda>st'. Inr (st'\<lparr>cp_worker_ctx := cp_worker_ctx st' + 1\<rparr>)))"

text \<open>
  \<^verbatim>\<open>compute_all_performance_predictions\<close>, after \<^verbatim>\<open>task_prio\<close> (0 unless the decision is
  sorted and the context has priority buckets). The outputs \<^verbatim>\<open>*forced_worker\<close> and
  \<^verbatim>\<open>*forced_impl\<close> are read off the final state by \<open>forced_worker\<close> and
  \<open>forced_impl\<close>; \<^verbatim>\<open>*best_exp_endp\<close> and \<^verbatim>\<open>*max_exp_endp\<close> are its fields.
\<close>

definition decision_task_prio :: "runtime \<Rightarrow> dmda_data \<Rightarrow> task \<Rightarrow> nat \<Rightarrow> bool \<Rightarrow> error + int" where
  "decision_task_prio rt dt t ctx_id sorted_decision =
     (if sorted_decision \<and> num_priorities dt \<noteq> -1
      then normalize_prio (ctxs rt) (priority t) (num_priorities dt) ctx_id
      else Inr 0)"

definition compute_all_performance_predictions ::
  "runtime \<Rightarrow> real \<Rightarrow> dmda_data \<Rightarrow> task \<Rightarrow> (nat \<Rightarrow> nat \<Rightarrow> dbl) \<Rightarrow> nat \<Rightarrow> bool
     \<Rightarrow> error + cp_state" where
  "compute_all_performance_predictions rt now dt t garbage ctx_id sorted_decision =
     ebind (decision_task_prio rt dt t ctx_id sorted_decision)
       (\<lambda>task_prio.
          efold (cp_worker_step rt now dt t sorted_decision task_prio) (workers rt)
            (cp_init garbage))"

definition forced_worker :: "cp_state \<Rightarrow> int" where
  "forced_worker st = (if cp_unknown st then cp_ntasks_best st else -1)"

definition forced_impl :: "cp_state \<Rightarrow> int" where
  "forced_impl st = (if cp_unknown st then cp_nimpl_best st else -1)"

subsection \<open>The dmda decision: \<^verbatim>\<open>_dmda_push_task\<close>\<close>

text \<open>The locals of the fitness loop of \<^verbatim>\<open>_dmda_push_task\<close>.\<close>

record fit_state =
  ft_worker_ctx :: nat
  ft_best :: int
  ft_best_in_ctx :: int
  ft_selected_impl :: int
  ft_best_fitness :: dbl
  fitness :: "nat \<Rightarrow> nat \<Rightarrow> dbl"

definition fit_init :: "(nat \<Rightarrow> nat \<Rightarrow> dbl) \<Rightarrow> fit_state" where
  "fit_init garbage =
     \<lparr>ft_worker_ctx = 0, ft_best = -1, ft_best_in_ctx = -1, ft_selected_impl = 0,
      ft_best_fitness = Fin (-1), fitness = garbage\<rparr>"

text \<open>The fitness of the candidate stored at \<open>[wc][n]\<close> (lines 830--840).\<close>

definition fitness_of :: "dmda_data \<Rightarrow> cp_state \<Rightarrow> nat \<Rightarrow> nat \<Rightarrow> dbl" where
  "fitness_of dt cp wc n =
     (let f0 = dadd (dadd (dmul (alpha dt) (dsub (exp_end_arr cp wc n) (cp_best_exp_end cp)))
                          (dmul (beta dt) (local_data_penalty cp wc n)))
                    (dmul (gamma dt) (local_energy cp wc n))
      in if dgt (exp_end_arr cp wc n) (cp_max_exp_end cp)
         then dadd f0 (ddiv (dmul (dmul (gamma dt) (idle_power dt))
                                  (dsub (exp_end_arr cp wc n) (cp_max_exp_end cp)))
                            (Fin 1000000))
         else f0)"

definition fit_candidate :: "dmda_data \<Rightarrow> cp_state \<Rightarrow> nat \<Rightarrow> nat \<Rightarrow> fit_state \<Rightarrow> fit_state" where
  "fit_candidate dt cp worker n st =
     (let wc = ft_worker_ctx st;
          st1 = st\<lparr>fitness := upd2 (fitness st) wc n (fitness_of dt cp wc n)\<rparr>
      in if ft_best st1 = -1 \<or> dlt (fitness st1 wc n) (ft_best_fitness st1)
         then st1\<lparr>ft_best_fitness := fitness st1 wc n, ft_best := int worker,
                  ft_best_in_ctx := int wc, ft_selected_impl := int n\<rparr>
         else st1)"

definition fit_impl_step ::
  "runtime \<Rightarrow> dmda_data \<Rightarrow> cp_state \<Rightarrow> nat \<Rightarrow> 32 word \<Rightarrow> nat \<Rightarrow> fit_state \<Rightarrow> error + fit_state" where
  "fit_impl_step rt dt cp worker impl_mask n st =
     (if \<not> bit impl_mask n then Inr st
      else if \<not> ft_worker_ctx st < nworkers rt then Inl OutOfBounds
      else Inr (fit_candidate dt cp worker n st))"

definition fit_worker_step ::
  "runtime \<Rightarrow> dmda_data \<Rightarrow> task \<Rightarrow> cp_state \<Rightarrow> nat \<Rightarrow> fit_state \<Rightarrow> error + fit_state" where
  "fit_worker_step rt dt t cp worker st =
     (let can = fst (can_execute_task_impl rt worker t);
          impl_mask = snd (can_execute_task_impl rt worker t)
      in if \<not> can then Inr st
         else ebind (efold (fit_impl_step rt dt cp worker impl_mask) [0..<maximpl rt] st)
                (\<lambda>st'. Inr (st'\<lparr>ft_worker_ctx := ft_worker_ctx st' + 1\<rparr>)))"

text \<open>
  The selection of the fitness loop is none yet, or one of the candidates of a set.
\<close>

definition selected_from :: "(nat \<times> nat \<times> nat) set \<Rightarrow> fit_state \<Rightarrow> bool" where
  "selected_from X st =
     (ft_best st = -1 \<or>
      (\<exists>w k n. (w, k, n) \<in> X \<and> ft_best st = int w \<and> ft_best_in_ctx st = int k \<and>
                ft_selected_impl st = int n))"

text \<open>
  What \<^verbatim>\<open>_dmda_push_task\<close> has decided when it reaches \<^verbatim>\<open>if(!simulate)\<close>: the locals
  \<^verbatim>\<open>best\<close>, \<^verbatim>\<open>best_in_ctx\<close>, \<^verbatim>\<open>selected_impl\<close>, \<^verbatim>\<open>model_best\<close>, \<^verbatim>\<open>transfer_model_best\<close>
  (fields \<open>dec_best\<close>, ...), with the prediction state and the fitness state they were taken from.
\<close>

record decision =
  dec_best :: int
  dec_best_in_ctx :: int
  dec_selected_impl :: int
  dec_model_best :: dbl
  dec_transfer_model_best :: dbl
  predictions :: cp_state
  fitnesses :: fit_state

definition dmda_decide ::
  "runtime \<Rightarrow> real \<Rightarrow> dmda_data \<Rightarrow> task \<Rightarrow> (nat \<Rightarrow> nat \<Rightarrow> dbl) \<Rightarrow> nat \<Rightarrow> bool
     \<Rightarrow> error + decision" where
  "dmda_decide rt now dt t garbage ctx_id sorted_decision =
     ebind (compute_all_performance_predictions rt now dt t garbage ctx_id sorted_decision)
       (\<lambda>cp.
          let forced_best = forced_worker cp
          in ebind (if forced_best = -1
                    then efold (fit_worker_step rt dt t cp) (workers rt) (fit_init garbage)
                    else Inr (fit_init garbage))
               (\<lambda>ft.
                  if \<not> (forced_best \<noteq> -1 \<or> ft_best ft \<noteq> -1) then Inl AssertFailed
                  else if forced_best \<noteq> -1
                  then Inr \<lparr>dec_best = forced_best, dec_best_in_ctx = ft_best_in_ctx ft,
                            dec_selected_impl = forced_impl cp, dec_model_best = Fin 0,
                            dec_transfer_model_best = Fin 0, predictions = cp, fitnesses = ft\<rparr>
                  else if has_bundle t
                  then Inr \<lparr>dec_best = ft_best ft, dec_best_in_ctx = ft_best_in_ctx ft,
                            dec_selected_impl = ft_selected_impl ft,
                            dec_model_best = expected_length rt t
                              (perf_archtype rt (nat (ft_best_in_ctx ft)))
                              (nat (ft_selected_impl ft)),
                            dec_transfer_model_best = expected_data_transfer_time rt
                              (memory_node rt (nat (ft_best ft))) t,
                            predictions = cp, fitnesses = ft\<rparr>
                  else Inr \<lparr>dec_best = ft_best ft, dec_best_in_ctx = ft_best_in_ctx ft,
                            dec_selected_impl = ft_selected_impl ft,
                            dec_model_best = local_task_length cp (nat (ft_best_in_ctx ft))
                                           (nat (ft_selected_impl ft)),
                            dec_transfer_model_best = local_data_penalty cp
                                           (nat (ft_best_in_ctx ft)) (nat (ft_selected_impl ft)),
                            predictions = cp, fitnesses = ft\<rparr>))"

text \<open>
  The final read \<^verbatim>\<open>exp_end[best_in_ctx][selected_impl]\<close> of the simulation, with the
  bounds of the array \<^verbatim>\<open>exp_end[nworkers_ctx][STARPU_MAXIMPLEMENTATIONS]\<close>.
\<close>

definition read_exp_end :: "runtime \<Rightarrow> decision \<Rightarrow> error + dbl" where
  "read_exp_end rt d =
     (if 0 \<le> dec_best_in_ctx d \<and> dec_best_in_ctx d < int (nworkers rt) \<and>
         0 \<le> dec_selected_impl d \<and> dec_selected_impl d < int (maximpl rt)
      then Inr (exp_end_arr (predictions d) (nat (dec_best_in_ctx d)) (nat (dec_selected_impl d)))
      else Inl OutOfBounds)"

text \<open>
  The static function \<^verbatim>\<open>_dmda_push_task\<close>. The result is the returned \<^verbatim>\<open>double\<close>, the
  task with its implementation (and, when committed, its predictions) set, and the
  policy data.
\<close>

definition dmda_push_task_internal ::
  "runtime \<Rightarrow> real \<Rightarrow> dmda_data \<Rightarrow> task \<Rightarrow> (nat \<Rightarrow> nat \<Rightarrow> dbl) \<Rightarrow> bool \<Rightarrow> nat \<Rightarrow> bool \<Rightarrow> bool
     \<Rightarrow> error + ((dbl \<times> task) \<times> dmda_data)" where
  "dmda_push_task_internal rt now dt t garbage prio ctx_id simulate sorted_decision =
     ebind (dmda_decide rt now dt t garbage ctx_id sorted_decision)
       (\<lambda>d.
          let t1 = t\<lparr>nimpl := nat (dec_selected_impl d)\<rparr>
          in if \<not> simulate
             then ebind (push_task_on_best_worker rt now dt t1 (dec_best d) (dec_model_best d)
                           (dec_transfer_model_best d) prio ctx_id)
                    (\<lambda>((ret, outcome, t2), dt'). Inr ((Fin (real_of_int ret), t2), dt'))
             else ebind (read_exp_end rt d) (\<lambda>v. Inr ((v, t1), dt)))"

text \<open>The entry points of the policy that wrap \<^verbatim>\<open>_dmda_push_task\<close>.\<close>

definition dmda_push_task ::
  "runtime \<Rightarrow> real \<Rightarrow> dmda_data \<Rightarrow> task \<Rightarrow> (nat \<Rightarrow> nat \<Rightarrow> dbl) \<Rightarrow> error + ((dbl \<times> task) \<times> dmda_data)" where
  "dmda_push_task rt now dt t garbage =
     dmda_push_task_internal rt now dt t garbage False (sched_ctx_id t) False False"

definition dmda_simulate_push_task ::
  "runtime \<Rightarrow> real \<Rightarrow> dmda_data \<Rightarrow> task \<Rightarrow> (nat \<Rightarrow> nat \<Rightarrow> dbl) \<Rightarrow> error + ((dbl \<times> task) \<times> dmda_data)" where
  "dmda_simulate_push_task rt now dt t garbage =
     dmda_push_task_internal rt now dt t garbage False (sched_ctx_id t) True False"

definition dmda_simulate_push_sorted_task ::
  "runtime \<Rightarrow> real \<Rightarrow> dmda_data \<Rightarrow> task \<Rightarrow> (nat \<Rightarrow> nat \<Rightarrow> dbl) \<Rightarrow> error + ((dbl \<times> task) \<times> dmda_data)" where
  "dmda_simulate_push_sorted_task rt now dt t garbage =
     dmda_push_task_internal rt now dt t garbage True (sched_ctx_id t) True False"

definition dmda_simulate_push_sorted_decision_task ::
  "runtime \<Rightarrow> real \<Rightarrow> dmda_data \<Rightarrow> task \<Rightarrow> (nat \<Rightarrow> nat \<Rightarrow> dbl) \<Rightarrow> error + ((dbl \<times> task) \<times> dmda_data)" where
  "dmda_simulate_push_sorted_decision_task rt now dt t garbage =
     dmda_push_task_internal rt now dt t garbage True (sched_ctx_id t) True True"

subsection \<open>The pending list of \<^verbatim>\<open>dm_push_task\<close>\<close>

text \<open>\<^verbatim>\<open>get_task_heter_ratio\<close>: the two passes over the eligible candidates.\<close>

definition heter_max_step :: "runtime \<Rightarrow> task \<Rightarrow> nat \<Rightarrow> 32 word \<Rightarrow> nat \<Rightarrow> dbl \<Rightarrow> dbl" where
  "heter_max_step rt t worker impl_mask n max_execution_time =
     (if \<not> bit impl_mask n then max_execution_time
      else let local_length = dadd (Fin 1) (expected_length rt t (perf_archtype rt worker) n)
           in if dgt local_length max_execution_time then local_length
              else max_execution_time)"

definition heter_ratio_step ::
  "runtime \<Rightarrow> task \<Rightarrow> dbl \<Rightarrow> nat \<Rightarrow> 32 word \<Rightarrow> nat \<Rightarrow> dbl \<Rightarrow> dbl" where
  "heter_ratio_step rt t max_execution_time worker impl_mask n max_heter_tatio =
     (if \<not> bit impl_mask n then max_heter_tatio
      else let local_length = dadd (Fin 1) (expected_length rt t (perf_archtype rt worker) n);
               heter_ratio = ddiv max_execution_time local_length
           in if dgt heter_ratio max_heter_tatio then heter_ratio else max_heter_tatio)"

text \<open>One pass: the loop over the workers around the loop over \<^verbatim>\<open>nimpl\<close>.\<close>

definition over_candidates ::
  "runtime \<Rightarrow> task \<Rightarrow> (nat \<Rightarrow> 32 word \<Rightarrow> nat \<Rightarrow> 's \<Rightarrow> 's) \<Rightarrow> 's \<Rightarrow> 's" where
  "over_candidates rt t body s0 =
     fold (\<lambda>worker s.
             if \<not> fst (can_execute_task_impl rt worker t) then s
             else fold (body worker (snd (can_execute_task_impl rt worker t)))
                    [0..<maximpl rt] s)
       (workers rt) s0"

definition get_task_heter_ratio :: "runtime \<Rightarrow> task \<Rightarrow> dbl" where
  "get_task_heter_ratio rt t =
     (let max_execution_time = over_candidates rt t (heter_max_step rt t) (Fin 0)
      in over_candidates rt t (heter_ratio_step rt t max_execution_time) (Fin 0))"

text \<open>
  Reading and writing the links of the task at an address; a NULL or dangling pointer is
  a crash.
\<close>

definition get_cell :: "task_heap \<Rightarrow> nat option \<Rightarrow> error + task_cell" where
  "get_cell h a = (case a of None \<Rightarrow> Inl NullTask
                   | Some x \<Rightarrow> (case h x of None \<Rightarrow> Inl NullTask | Some c \<Rightarrow> Inr c))"

definition set_next :: "task_heap \<Rightarrow> nat option \<Rightarrow> nat option \<Rightarrow> error + task_heap" where
  "set_next h a v = (case a of None \<Rightarrow> Inl NullTask
                     | Some x \<Rightarrow> (case h x of None \<Rightarrow> Inl NullTask
                                   | Some c \<Rightarrow> Inr (h(x \<mapsto> c\<lparr>cell_next := v\<rparr>))))"

definition set_prev :: "task_heap \<Rightarrow> nat option \<Rightarrow> nat option \<Rightarrow> error + task_heap" where
  "set_prev h a v = (case a of None \<Rightarrow> Inl NullTask
                     | Some x \<Rightarrow> (case h x of None \<Rightarrow> Inl NullTask
                                   | Some c \<Rightarrow> Inr (h(x \<mapsto> c\<lparr>cell_prev := v\<rparr>))))"

text \<open>
  \<^verbatim>\<open>starpu_task_list_push_back\<close> and \<^verbatim>\<open>starpu_task_list_push_front\<close> of StarPU's
  task-list API, as the usual operations of a doubly-linked list with head and tail.
\<close>

definition starpu_task_list_push_back ::
  "task_list \<Rightarrow> task_heap \<Rightarrow> nat \<Rightarrow> error + (task_list \<times> task_heap)" where
  "starpu_task_list_push_back l h tk =
     (case list_tail l of
        None \<Rightarrow>
          ebind (set_prev h (Some tk) None)
            (\<lambda>h1. ebind (set_next h1 (Some tk) None)
              (\<lambda>h2. Inr (\<lparr>list_head = Some tk, list_tail = Some tk\<rparr>, h2)))
      | Some last_task \<Rightarrow>
          ebind (set_prev h (Some tk) (Some last_task))
            (\<lambda>h1. ebind (set_next h1 (Some tk) None)
              (\<lambda>h2. ebind (set_next h2 (Some last_task) (Some tk))
                (\<lambda>h3. Inr (l\<lparr>list_tail := Some tk\<rparr>, h3)))))"

definition starpu_task_list_push_front ::
  "task_list \<Rightarrow> task_heap \<Rightarrow> nat \<Rightarrow> error + (task_list \<times> task_heap)" where
  "starpu_task_list_push_front l h tk =
     (case list_head l of
        None \<Rightarrow>
          ebind (set_prev h (Some tk) None)
            (\<lambda>h1. ebind (set_next h1 (Some tk) None)
              (\<lambda>h2. Inr (\<lparr>list_head = Some tk, list_tail = Some tk\<rparr>, h2)))
      | Some first_task \<Rightarrow>
          ebind (set_prev h (Some tk) None)
            (\<lambda>h1. ebind (set_next h1 (Some tk) (Some first_task))
              (\<lambda>h2. ebind (set_prev h2 (Some first_task) (Some tk))
                (\<lambda>h3. Inr (l\<lparr>list_head := Some tk\<rparr>, h3)))))"

text \<open>
  The four assignments in the body of the insertion loop:
  \<^verbatim>\<open>current->prev->next = task; task->next = current; task->prev = current->prev;
  current->prev = task;\<close>
\<close>

definition splice_before :: "task_heap \<Rightarrow> nat \<Rightarrow> nat \<Rightarrow> error + task_heap" where
  "splice_before h current tk =
     ebind (get_cell h (Some current))
       (\<lambda>c. ebind (set_next h (cell_prev c) (Some tk))
         (\<lambda>h1. ebind (set_next h1 (Some tk) (Some current))
           (\<lambda>h2. ebind (get_cell h2 (Some current))
             (\<lambda>c'. ebind (set_prev h2 (Some tk) (cell_prev c'))
               (\<lambda>h3. set_prev h3 (Some current) (Some tk))))))"

text \<open>
  The loop \<^verbatim>\<open>while(current != NULL) { if (max_heter_ratio > get_task_heter_ratio(...,
  current)) { ... } }\<close>. \<open>None\<close> is the loop that does not return.
\<close>

partial_function (option) insert_loop ::
  "runtime \<Rightarrow> dbl \<Rightarrow> nat \<Rightarrow> task_heap \<Rightarrow> nat option \<Rightarrow> (error + task_heap) option" where
  "insert_loop rt max_heter_ratio tk h current =
     (case current of
        None \<Rightarrow> Some (Inr h)
      | Some c \<Rightarrow>
          (case h c of
             None \<Rightarrow> Some (Inl NullTask)
           | Some cc \<Rightarrow>
               if dgt max_heter_ratio (get_task_heter_ratio rt (cell_task cc))
               then (case splice_before h c tk of
                       Inl e \<Rightarrow> Some (Inl e)
                     | Inr h' \<Rightarrow> insert_loop rt max_heter_ratio tk h' current)
               else insert_loop rt max_heter_ratio tk h current))"

text \<open>
  The state in which the loop is entered on a well-formed list: the cursor points to a
  task whose \<^verbatim>\<open>prev\<close> is a task, and the pushed task exists.
\<close>

definition cursor_ok :: "task_heap \<Rightarrow> nat \<Rightarrow> nat \<Rightarrow> bool" where
  "cursor_ok h c tk =
     (case h c of None \<Rightarrow> False
      | Some cc \<Rightarrow> (case cell_prev cc of None \<Rightarrow> False
                     | Some p \<Rightarrow> h p \<noteq> None \<and> h tk \<noteq> None))"

text \<open>Lines 977--998 of \<^verbatim>\<open>dm_push_task\<close>: the insertion into \<^verbatim>\<open>main_list\<close>.\<close>

definition dm_insert ::
  "runtime \<Rightarrow> task_list \<Rightarrow> task_heap \<Rightarrow> nat \<Rightarrow> (error + (task_list \<times> task_heap)) option" where
  "dm_insert rt l h tk =
     (case get_cell h (Some tk) of
        Inl e \<Rightarrow> Some (Inl e)
      | Inr tc \<Rightarrow>
          let max_heter_ratio = get_task_heter_ratio rt (cell_task tc)
          in if list_head l = None then Some (starpu_task_list_push_back l h tk)
             else (case get_cell h (list_head l) of
                     Inl e \<Rightarrow> Some (Inl e)
                   | Inr current \<Rightarrow>
                       if dgt max_heter_ratio (get_task_heter_ratio rt (cell_task current))
                       then Some (starpu_task_list_push_front l h tk)
                       else (case insert_loop rt max_heter_ratio tk h (cell_next current) of
                               None \<Rightarrow> None
                             | Some (Inl e) \<Rightarrow> Some (Inl e)
                             | Some (Inr h') \<Rightarrow> Some (Inr (l, h')))))"

text \<open>
  \<^verbatim>\<open>dm_push_task\<close>: the insertion, then \<^verbatim>\<open>_dm_push_task\<close> on the head of the list, then
  \<^verbatim>\<open>return 0\<close>. The FIFOs hold task values; \<^verbatim>\<open>main_list\<close> is the only list kept with
  its pointers.
\<close>

definition dm_push_task ::
  "runtime \<Rightarrow> real \<Rightarrow> dmda_data \<Rightarrow> task_heap \<Rightarrow> nat
     \<Rightarrow> (error + (int \<times> dmda_data \<times> task_heap)) option" where
  "dm_push_task rt now dt h tk =
     (case dm_insert rt (main_list dt) h tk of
        None \<Rightarrow> None
      | Some (Inl e) \<Rightarrow> Some (Inl e)
      | Some (Inr (l', h')) \<Rightarrow>
          Some (ebind (get_cell h' (list_head l'))
                  (\<lambda>front.
                     ebind (dm_push_task_internal rt now (dt\<lparr>main_list := l'\<rparr>)
                              (cell_task front) False (sched_ctx_id (cell_task front)))
                       (\<lambda>(r, dt'). Inr (0, dt', h')))))"

subsection \<open>Reference reading of the specification and example configurations\<close>

text \<open>
  The specification's own count for the data-aware pop: "a buffer is non-ready when the
  data handle reports \<open>is_valid == false\<close> there", there being the worker's memory
  node. It is compared with \<open>count_non_ready_buffers\<close> below.
\<close>

definition spec_non_ready_at :: "task \<Rightarrow> nat \<Rightarrow> int" where
  "spec_non_ready_at t node =
     int (length (filter (\<lambda>(handle, cl_node). \<not> is_valid handle node) (buffers t)))"

definition mk_task :: "nat \<Rightarrow> int \<Rightarrow> (data_handle \<times> nat) list \<Rightarrow> bool \<Rightarrow> task" where
  "mk_task i p bs sn =
     \<lparr>task_id = i, priority = p, sched_ctx_id = 0, buffers = bs, specific_nodes = sn,
      predicted = Fin 0, predicted_transfer = Fin 0, nimpl = 0, has_bundle = False\<rparr>"

definition mk_fifo :: "task list \<Rightarrow> fifo_taskq" where
  "mk_fifo ts =
     \<lparr>taskq = ts, ntasks = of_nat (length ts), nprocessed = of_nat (length ts),
      exp_start = Fin 0, exp_end = Fin 0, exp_len = Fin 0,
      exp_len_per_priority = [], ntasks_per_priority = []\<rparr>"

text \<open>A context that set no priority bounds, and one that set both to 0.\<close>

definition ctx_unset :: sched_ctx where
  "ctx_unset = \<lparr>min_priority = 0, max_priority = 0,
                 min_priority_is_set = False, max_priority_is_set = False\<rparr>"

definition ctx_single :: sched_ctx where
  "ctx_single = \<lparr>min_priority = 0, max_priority = 0,
                  min_priority_is_set = True, max_priority_is_set = True\<rparr>"

text \<open>
  Scenario S5 of the specification: A (priority 5, two non-ready buffers), B (priority
  5, none), C (priority 3, none), popped at node 0.
\<close>

definition S5_A :: task where
  "S5_A = mk_task 0 5 [(\<lparr>handle_id = 0, valid_nodes = []\<rparr>, 0),
                       (\<lparr>handle_id = 1, valid_nodes = []\<rparr>, 0)] False"

definition S5_B :: task where
  "S5_B = mk_task 1 5 [(\<lparr>handle_id = 2, valid_nodes = [0]\<rparr>, 0)] False"

definition S5_C :: task where
  "S5_C = mk_task 2 3 [] False"

text \<open>
  A queue whose second task belongs to a codelet with \<^verbatim>\<open>specific_nodes\<close>: its only
  buffer is designated for node 1, where the handle is valid, and is not valid on
  node 0. The head has one buffer that is not valid on node 0.
\<close>

definition pinned_A :: task where
  "pinned_A = mk_task 0 5 [(\<lparr>handle_id = 0, valid_nodes = []\<rparr>, 0)] False"

definition pinned_B :: task where
  "pinned_B = mk_task 1 5 [(\<lparr>handle_id = 1, valid_nodes = [1]\<rparr>, 1)] True"

text \<open>
  Scenario S1 of the specification: worker 0 is a CPU (speedup 1), worker 1 a GPU
  (speedup 10); a task takes 100 on the CPU and 20 on the GPU, with a transfer of 5 to
  the GPU; one implementation; no child contexts.
\<close>

definition rt_S1 :: runtime where
  "rt_S1 =
     \<lparr>ctxs = (\<lambda>_. ctx_unset), workers = [0, 1], nworkers = 2, maximpl = 4,
      nmax_sched_ctxs = 10,
      can_execute_task_impl = (\<lambda>w t. (True, 1)),
      memory_node = (\<lambda>w. w), perf_archtype = (\<lambda>w. w),
      expected_length = (\<lambda>t a i. if a = 0 then Fin 100 else Fin 20),
      expected_data_transfer_time = (\<lambda>n t. if n = 0 then Fin 0 else Fin 5),
      expected_energy = (\<lambda>t a i. Fin 0),
      expected_conversion_time = (\<lambda>t a i. Fin 0),
      bundle_expected_length = (\<lambda>t a i. if a = 0 then Fin 100 else Fin 20),
      bundle_expected_data_transfer_time = (\<lambda>t n. if n = 0 then Fin 0 else Fin 5),
      bundle_expected_energy = (\<lambda>t a i. Fin 0),
      relative_speedup = (\<lambda>a. if a = 0 then Fin 1 else Fin 10),
      worker_is_master_for_child_ctx = (\<lambda>w c. 10),
      fifo_get_exp_len_prev_task_list = (\<lambda>f t w i. (exp_len f, sint (ntasks f))),
      fifo_push_sorted_ret = 0\<rparr>"

text \<open>The same machine where worker 1 leads the child context 3.\<close>

definition rt_child :: runtime where
  "rt_child = rt_S1\<lparr>worker_is_master_for_child_ctx := (\<lambda>w c. if w = 1 then 3 else 10)\<rparr>"

text \<open>The same machine with the CPU model of the task not calibrated (scenario S3).\<close>

definition rt_S3 :: runtime where
  "rt_S3 = rt_S1\<lparr>expected_length := (\<lambda>t a i. if a = 0 then NaN else Fin 20)\<rparr>"

text \<open>Policy data with the default coefficients and two empty FIFOs.\<close>

definition dt_S1 :: dmda_data where
  "dt_S1 =
     \<lparr>alpha = Fin 1, beta = Fin 1, gamma = Fin 1000, idle_power = Fin 0,
      queue_array = (\<lambda>w. if w < 2 then Some (mk_fifo []) else None),
      main_list = \<lparr>list_head = None, list_tail = None\<rparr>,
      num_priorities = -1\<rparr>"

definition task_T :: task where
  "task_T = mk_task 7 0 [] False"

text \<open>
  Task memory with a pending list of two tasks (at addresses 1 and 2) and a third task
  (at address 3) that is being pushed; all three are \<open>task_T\<close>.
\<close>

definition heap_two_pending :: task_heap where
  "heap_two_pending =
     (\<lambda>a. if a = 1 then Some \<lparr>cell_task = task_T, cell_next = Some 2, cell_prev = None\<rparr>
          else if a = 2 then Some \<lparr>cell_task = task_T, cell_next = None, cell_prev = Some 1\<rparr>
          else if a = 3 then Some \<lparr>cell_task = task_T, cell_next = None, cell_prev = None\<rparr>
          else None)"

definition dt_two_pending :: dmda_data where
  "dt_two_pending = dt_S1\<lparr>main_list := \<lparr>list_head = Some 1, list_tail = Some 2\<rparr>\<rparr>"

text \<open>The machine of scenario S1 reduced to its CPU worker.\<close>

definition rt_one :: runtime where
  "rt_one = rt_S1\<lparr>workers := [0], nworkers := 1\<rparr>"

text \<open>What the scan of \<^verbatim>\<open>_dm_push_task\<close> finds on that machine at time 10.\<close>

definition dm_one_result :: dm_state where
  "dm_one_result =
     \<lparr>dm_best = 0, dm_best_exp_end = Fin 110, dm_model_best = Fin 100,
      dm_transfer_model_best = Fin 0, dm_ntasks_best = 0, dm_ntasks_best_end = Fin 0,
      dm_calibrating = False, dm_unknown = False, dm_best_impl = 0\<rparr>"

subsection \<open>Basic facts\<close>

lemma dadd_assoc: "dadd (dadd a b) c = dadd a (dadd b c)"
  by (cases a; cases b; cases c) simp_all

lemma isnan_dadd: "isnan (dadd a b) = (isnan a \<or> isnan b)"
  by (cases a; cases b) simp_all

lemma isnan_dsub: "isnan (dsub a b) = (isnan a \<or> isnan b)"
  by (cases a; cases b) simp_all

lemma isnan_STARPU_MAX_now: "\<not> isnan (STARPU_MAX (Fin now) a)"
  by (cases a) (simp_all add: STARPU_MAX_def)

lemma isnan_STARPU_MAX_now2: "\<not> isnan a \<Longrightarrow> \<not> isnan (STARPU_MAX a (Fin now))"
  by (cases a) (simp_all add: STARPU_MAX_def)

lemma ebind_Inr: "ebind m k = Inr y \<Longrightarrow> \<exists>x. m = Inr x \<and> k x = Inr y"
  by (cases m) (simp_all add: ebind_def)

lemma with_fifo_Inr:
  assumes "with_fifo dt w k = Inr (r, dt')"
  shows "\<exists>f f'. queue_array dt w = Some f \<and> k f = Inr (r, f') \<and>
           dt' = dt\<lparr>queue_array := (queue_array dt)(w \<mapsto> f')\<rparr>"
proof (cases "queue_array dt w")
  case None
  with assms show ?thesis by (simp add: with_fifo_def)
next
  case (Some f)
  with assms obtain x where x: "k f = Inr x"
      and y: "(case x of (r, fifo') \<Rightarrow> Inr (r, dt\<lparr>queue_array := (queue_array dt)(w \<mapsto> fifo')\<rparr>))
              = (Inr (r, dt') :: error + _)"
    by (auto simp: with_fifo_def dest: ebind_Inr)
  obtain r' f' where "x = (r', f')" by (cases x)
  with x y Some show ?thesis by auto
qed

lemma ebind_Inr2: "ebind m (\<lambda>(a, b). k a b) = Inr y \<Longrightarrow> \<exists>a b. m = Inr (a, b) \<and> k a b = Inr y"
  by (cases m) (auto simp: ebind_def)

lemma efold_Inr_Cons:
  "efold body (x # xs) s = Inr s' \<Longrightarrow> \<exists>s1. body x s = Inr s1 \<and> efold body xs s1 = Inr s'"
  by (cases "body x s") simp_all

lemma efold_invariant:
  assumes "efold body xs s = Inr s'" and "P s"
    and "\<And>x a b. x \<in> set xs \<Longrightarrow> body x a = Inr b \<Longrightarrow> P a \<Longrightarrow> P b"
  shows "P s'"
  using assms
proof (induction xs arbitrary: s)
  case Nil
  then show ?case by simp
next
  case (Cons x xs)
  from efold_Inr_Cons [OF Cons.prems(1)] obtain s1 where
    a: "body x s = Inr s1" and b: "efold body xs s1 = Inr s'" by blast
  have p1: "P s1" using Cons.prems(3) [OF _ a Cons.prems(2)] by simp
  show ?case
  proof (rule Cons.IH [OF b p1])
    fix y a b assume "y \<in> set xs" "body y a = Inr b" "P a"
    then show "P b" using Cons.prems(3) [of y a b] by simp
  qed
qed

lemma upt4: "[0..<4] = [0, 1, 2, 3::nat]"
  by (simp add: upt_rec)

lemma DBL_MIN_bounds: "0 < DBL_MIN" "DBL_MIN < 1"
  by (simp_all add: DBL_MIN_def)

lemma DBL_MAX_bound: "10 ^ 9 < DBL_MAX"
proof -
  have "(2::real) ^ 1023 = 2 ^ 30 * 2 ^ 993" by (simp flip: power_add)
  moreover have "(1::real) \<le> 2 ^ 993" by simp
  ultimately have "(2::real) ^ 30 \<le> 2 ^ 1023"
    by (metis mult.right_neutral mult_left_mono zero_le_numeral zero_le_power)
  moreover have "(1::real) \<le> 2 - 1 / 2 ^ 52" by simp
  ultimately have "(2::real) ^ 30 \<le> (2 - 1 / 2 ^ 52) * 2 ^ 1023"
    by (metis mult.commute mult.right_neutral mult_mono zero_le_numeral zero_le_power zero_le_one)
  then show ?thesis by (simp add: DBL_MAX_def)
qed


subsection \<open>The horizon invariant\<close>

lemma refresh_start_ok:
  "\<not> isnan (exp_len f) \<Longrightarrow> horizon_ok (refresh_start now f)"
  by (simp add: refresh_start_def horizon_ok_def Let_def isnan_dadd isnan_STARPU_MAX_now)

lemma refresh_start_nan_ok:
  "\<not> isnan (exp_len f) \<Longrightarrow> horizon_ok (refresh_start_nan now f)"
  by (simp add: refresh_start_nan_def horizon_ok_def Let_def isnan_dadd isnan_STARPU_MAX_now2)

lemma add_to_horizon_ok:
  assumes "add_to_horizon cs np t x f = Inr f'" "horizon_ok f" "\<not> isnan x"
  shows "horizon_ok f'"
proof -
  from assms(1) obtain b where
    "f' = f\<lparr>exp_end := dadd (exp_end f) x, exp_len := dadd (exp_len f) x,
            exp_len_per_priority := b\<rparr>"
    by (auto simp: add_to_horizon_def dest: ebind_Inr)
  with assms(2,3) show ?thesis
    by (auto simp: horizon_ok_def dadd_assoc isnan_dadd)
qed

lemma push_horizon_ok:
  assumes "push_horizon cs np now t p ptr f = Inr (pt, f')" "\<not> isnan (exp_len f)"
  shows "horizon_ok f'"
proof -
  let ?f1 = "refresh_start_nan now f"
  let ?pt = "residual_transfer now ptr ?f1"
  have ok1: "horizon_ok ?f1" using assms(2) by (rule refresh_start_nan_ok)
  from assms(1) obtain f2 where
    a: "(if \<not> isnan ?pt then add_to_horizon cs np t ?pt ?f1 else Inr ?f1) = Inr f2" and
    b: "(if \<not> isnan p then add_to_horizon cs np t p f2 else Inr f2) = Inr f'"
    by (auto simp: push_horizon_def Let_def dest!: ebind_Inr)
  from a ok1 have ok2: "horizon_ok f2"
    by (auto split: if_splits intro: add_to_horizon_ok)
  from b ok2 show ?thesis
    by (auto split: if_splits intro: add_to_horizon_ok)
qed

lemma push_insert_horizon:
  assumes "push_insert rt np prio t f = Inr (ret, f')"
  shows "exp_start f' = exp_start f \<and> exp_len f' = exp_len f \<and> exp_end f' = exp_end f"
  using assms
  by (auto simp: push_insert_def Let_def starpu_fifo_push_sorted_task_def
           split: if_splits dest!: ebind_Inr)

lemma horizon_ok_cong:
  "exp_start f' = exp_start f \<Longrightarrow> exp_len f' = exp_len f \<Longrightarrow> exp_end f' = exp_end f
     \<Longrightarrow> horizon_ok f \<Longrightarrow> horizon_ok f'"
  by (auto simp: horizon_ok_def)

lemma push_commit_ok:
  assumes "push_task_on_best_worker rt now dt t bw p ptr prio ctx_id = Inr ((ret, Committed, t'), dt')"
    and "queue_array dt (nat bw) = Some f" "\<not> isnan (exp_len f)"
  shows "fifo_ok_at dt' (nat bw)"
proof -
  from assms(1) have w: "with_fifo dt (nat bw)
                  (\<lambda>fifo.
                     ebind (push_horizon (ctxs rt) (num_priorities dt) now t p ptr fifo)
                       (\<lambda>(pt, f1).
                          let t' = t\<lparr>predicted := p, predicted_transfer := pt\<rparr>
                          in ebind (push_insert rt (num_priorities dt) prio t' f1)
                               (\<lambda>(ret, f2). Inr ((ret, Committed, t'), f2)))) = Inr ((ret, Committed, t'), dt')"
    by (simp add: push_task_on_best_worker_def Let_def split: if_splits)
  from with_fifo_Inr [OF w] assms(2) obtain f' where
    k: "ebind (push_horizon (ctxs rt) (num_priorities dt) now t p ptr f)
                       (\<lambda>(pt, f1).
                          let t' = t\<lparr>predicted := p, predicted_transfer := pt\<rparr>
                          in ebind (push_insert rt (num_priorities dt) prio t' f1)
                               (\<lambda>(ret, f2). Inr ((ret, Committed, t'), f2))) = Inr ((ret, Committed, t'), f')"
    and dt': "dt' = dt\<lparr>queue_array := (queue_array dt)(nat bw \<mapsto> f')\<rparr>"
    by auto
  from ebind_Inr [OF k] obtain pt f1 where
    ph: "push_horizon (ctxs rt) (num_priorities dt) now t p ptr f = Inr (pt, f1)" and
    k2: "ebind (push_insert rt (num_priorities dt) prio (t\<lparr>predicted := p, predicted_transfer := pt\<rparr>) f1)
                               (\<lambda>(ret, f2). Inr ((ret, Committed, t\<lparr>predicted := p, predicted_transfer := pt\<rparr>), f2)) = Inr ((ret, Committed, t'), f')"
    by (auto simp: Let_def)
  from ebind_Inr [OF k2] obtain ret' where
    pi: "push_insert rt (num_priorities dt) prio (t\<lparr>predicted := p, predicted_transfer := pt\<rparr>) f1 = Inr (ret', f')"
    by auto
  from push_horizon_ok [OF ph assms(3)] have "horizon_ok f1" .
  with push_insert_horizon [OF pi] have "horizon_ok f'"
    by (auto intro: horizon_ok_cong)
  with dt' show ?thesis by (simp add: fifo_ok_at_def)
qed


lemma transfer_is_over_fields:
  "transfer_is_over cs np t x f = Inr f' \<Longrightarrow>
     exp_len f' = dsub (exp_len f) x \<and> exp_start f' = exp_start f"
  by (auto simp: transfer_is_over_def Let_def dest!: ebind_Inr)

lemma start_computation_fields:
  "start_computation cs np t x f = Inr f' \<Longrightarrow>
     exp_len f' = dsub (exp_len f) x \<and> exp_start f' = dadd (exp_start f) x"
  by (auto simp: start_computation_def Let_def dest!: ebind_Inr)

lemma pre_exec_steps:
  assumes "dmda_pre_exec_hook rt now dt w t = Inr (r, dt')" "queue_array dt w = Some f"
  shows "\<exists>f2 f3.
     (if \<not> isnan (predicted_transfer t)
      then transfer_is_over (ctxs rt) (num_priorities dt) t (predicted_transfer t) (refresh_start now f)
      else Inr (refresh_start now f)) = Inr f2 \<and>
     (if \<not> isnan (predicted t)
      then start_computation (ctxs rt) (num_priorities dt) t (predicted t) f2
      else Inr f2) = Inr f3 \<and>
     queue_array dt' w = Some (f3\<lparr>exp_end := dadd (exp_start f3) (exp_len f3)\<rparr>)"
proof -
  let ?K = "\<lambda>fifo.
          let model = predicted t;
              transfer_model = predicted_transfer t;
              f1 = refresh_start now fifo
          in ebind
               (if \<not> isnan transfer_model
                then transfer_is_over (ctxs rt) (num_priorities dt) t transfer_model f1
                else Inr f1)
               (\<lambda>f2.
                  ebind
                    (if \<not> isnan model
                     then start_computation (ctxs rt) (num_priorities dt) t model f2
                     else Inr f2)
                    (\<lambda>f3. Inr ((), f3\<lparr>exp_end := dadd (exp_start f3) (exp_len f3)\<rparr>)))"
  from assms(1) have "with_fifo dt w ?K = Inr (r, dt')"
    by (simp add: dmda_pre_exec_hook_def)
  from with_fifo_Inr [OF this] assms(2) obtain f' where
    k: "?K f = Inr (r, f')" and dt': "dt' = dt\<lparr>queue_array := (queue_array dt)(w \<mapsto> f')\<rparr>"
    by auto
  from k have k': "ebind
               (if \<not> isnan (predicted_transfer t)
                then transfer_is_over (ctxs rt) (num_priorities dt) t (predicted_transfer t) (refresh_start now f)
                else Inr (refresh_start now f))
               (\<lambda>f2.
                  ebind
                    (if \<not> isnan (predicted t)
                     then start_computation (ctxs rt) (num_priorities dt) t (predicted t) f2
                     else Inr f2)
                    (\<lambda>f3. Inr ((), f3\<lparr>exp_end := dadd (exp_start f3) (exp_len f3)\<rparr>))) = Inr (r, f')"
    by (simp add: Let_def)
  from ebind_Inr [OF k'] obtain f2 where
    a: "(if \<not> isnan (predicted_transfer t)
      then transfer_is_over (ctxs rt) (num_priorities dt) t (predicted_transfer t) (refresh_start now f)
      else Inr (refresh_start now f)) = Inr f2" and
    k2: "ebind
                    (if \<not> isnan (predicted t)
                     then start_computation (ctxs rt) (num_priorities dt) t (predicted t) f2
                     else Inr f2)
                    (\<lambda>f3. Inr ((), f3\<lparr>exp_end := dadd (exp_start f3) (exp_len f3)\<rparr>)) = Inr (r, f')"
    by blast
  from ebind_Inr [OF k2] obtain f3 where
    b: "(if \<not> isnan (predicted t)
      then start_computation (ctxs rt) (num_priorities dt) t (predicted t) f2
      else Inr f2) = Inr f3" and
    c: "f' = f3\<lparr>exp_end := dadd (exp_start f3) (exp_len f3)\<rparr>"
    by auto
  from a b c dt' show ?thesis by simp
qed

lemma pre_exec_ok:
  assumes "dmda_pre_exec_hook rt now dt w t = Inr (r, dt')" "queue_array dt w = Some f"
    "\<not> isnan (exp_len f)"
  shows "fifo_ok_at dt' w"
proof -
  from pre_exec_steps [OF assms(1,2)] obtain f2 f3 where
    a: "(if \<not> isnan (predicted_transfer t)
      then transfer_is_over (ctxs rt) (num_priorities dt) t (predicted_transfer t) (refresh_start now f)
      else Inr (refresh_start now f)) = Inr f2" and
    b: "(if \<not> isnan (predicted t)
      then start_computation (ctxs rt) (num_priorities dt) t (predicted t) f2
      else Inr f2) = Inr f3" and
    c: "queue_array dt' w = Some (f3\<lparr>exp_end := dadd (exp_start f3) (exp_len f3)\<rparr>)"
    by blast
  have n1: "\<not> isnan (exp_start (refresh_start now f)) \<and> \<not> isnan (exp_len (refresh_start now f))"
    using assms(3) by (simp add: refresh_start_def Let_def isnan_STARPU_MAX_now)
  from a n1 have n2: "\<not> isnan (exp_start f2) \<and> \<not> isnan (exp_len f2)"
    by (auto split: if_splits dest!: transfer_is_over_fields simp: isnan_dsub)
  from b n2 have n3: "\<not> isnan (exp_start f3) \<and> \<not> isnan (exp_len f3)"
    by (auto split: if_splits dest!: start_computation_fields simp: isnan_dsub isnan_dadd)
  with c show ?thesis
    by (simp add: fifo_ok_at_def horizon_ok_def isnan_dadd)
qed

lemma post_exec_ok:
  assumes "dmda_post_exec_hook now dt w t = Inr (r, dt')" "queue_array dt w = Some f"
    "\<not> isnan (exp_len f)"
  shows "fifo_ok_at dt' w"
proof -
  from with_fifo_Inr [OF assms(1) [unfolded dmda_post_exec_hook_def]] assms(2,3)
  show ?thesis
    by (auto simp: Let_def fifo_ok_at_def horizon_ok_def isnan_dadd)
qed

lemma pop_first_ready_horizon:
  assumes "starpu_fifo_pop_first_ready_task cs f node np = Inr (r, f')"
  shows "exp_start f' = exp_start f \<and> exp_len f' = exp_len f \<and> exp_end f' = exp_end f"
proof (cases "ntasks f = 0")
  case True
  with assms show ?thesis by (simp add: starpu_fifo_pop_first_ready_task_def)
next
  case False
  show ?thesis
  proof (cases "taskq f")
    case Nil
    with False assms show ?thesis
      by (auto simp: starpu_fifo_pop_first_ready_task_def Let_def)
  next
    case (Cons a list)
    with False assms show ?thesis
      by (auto simp: starpu_fifo_pop_first_ready_task_def Let_def dest!: ebind_Inr)
  qed
qed

lemma pop_ready_ok:
  assumes "dmda_pop_ready_task rt now dt w = Inr (r, dt')" "queue_array dt w = Some f"
    "\<not> isnan (exp_len f)"
  shows "fifo_ok_at dt' w"
proof -
  from with_fifo_Inr [OF assms(1) [unfolded dmda_pop_ready_task_def]] assms(2)
  obtain f' where p: "starpu_fifo_pop_first_ready_task (ctxs rt) (refresh_start now f)
                  (memory_node rt w) (num_priorities dt) = Inr (r, f')"
    and dt': "dt' = dt\<lparr>queue_array := (queue_array dt)(w \<mapsto> f')\<rparr>" by auto
  from pop_first_ready_horizon [OF p] refresh_start_ok [OF assms(3), of now]
  have "horizon_ok f'" by (auto intro: horizon_ok_cong)
  with dt' show ?thesis by (simp add: fifo_ok_at_def)
qed

lemma pop_task_ok:
  assumes "dmda_pop_task now dt w = Inr (r, dt')" "queue_array dt w = Some f"
    "\<not> isnan (exp_len f)"
  shows "fifo_ok_at dt' w"
proof -
  from with_fifo_Inr [OF assms(1) [unfolded dmda_pop_task_def]] assms(2)
  obtain f' where p: "starpu_fifo_pop_local_task (refresh_start now f) = (r, f')"
    and dt': "dt' = dt\<lparr>queue_array := (queue_array dt)(w \<mapsto> f')\<rparr>" by auto
  from p have "exp_start f' = exp_start (refresh_start now f) \<and>
     exp_len f' = exp_len (refresh_start now f) \<and> exp_end f' = exp_end (refresh_start now f)"
    by (auto simp: starpu_fifo_pop_local_task_def split: list.splits)
  with refresh_start_ok [OF assms(3), of now]
  have "horizon_ok f'" by (auto intro: horizon_ok_cong)
  with dt' show ?thesis by (simp add: fifo_ok_at_def)
qed

lemma pop_every_ok:
  assumes "dmda_pop_every_task now dt w = Inr (r, dt')" "queue_array dt w = Some f"
    "\<not> isnan (exp_len f)"
  shows "fifo_ok_at dt' w"
proof -
  from with_fifo_Inr [OF assms(1) [unfolded dmda_pop_every_task_def]] assms(2)
  obtain f' where p: "starpu_fifo_pop_every_task (refresh_start now f) = (r, f')"
    and dt': "dt' = dt\<lparr>queue_array := (queue_array dt)(w \<mapsto> f')\<rparr>" by auto
  from p have "exp_start f' = exp_start (refresh_start now f) \<and>
     exp_len f' = exp_len (refresh_start now f) \<and> exp_end f' = exp_end (refresh_start now f)"
    by (auto simp: starpu_fifo_pop_every_task_def)
  with refresh_start_ok [OF assms(3), of now]
  have "horizon_ok f'" by (auto intro: horizon_ok_cong)
  with dt' show ?thesis by (simp add: fifo_ok_at_def)
qed

lemma notify_transfer_ok:
  assumes "notify_transfer rt now np tr t f = Inr (t1, f')" "horizon_ok f"
  shows "horizon_ok f'"
proof (cases "isnan tr")
  case True
  with assms show ?thesis by (simp add: notify_transfer_def)
next
  case False
  have "\<not> isnan (exp_end f)" using assms(2) unfolding horizon_ok_def by blast
  then have "\<not> isnan (residual_transfer now tr f)"
    using False by (cases tr; cases "exp_end f") (simp_all add: residual_transfer_def)
  with False assms show ?thesis
    by (auto simp: notify_transfer_def Let_def dest!: ebind_Inr intro: add_to_horizon_ok)
qed

lemma notify_length_ok:
  assumes "notify_length rt np p t f = Inr (t1, f')" "horizon_ok f"
  shows "horizon_ok f'"
  using assms
  by (auto simp: notify_length_def split: if_splits dest!: ebind_Inr intro: add_to_horizon_ok)

lemma notify_count_ok:
  assumes "notify_count rt np t f = Inr (t1, f')" "horizon_ok f"
  shows "horizon_ok f'"
  using assms
  by (auto simp: notify_count_def horizon_ok_def dest!: ebind_Inr)

lemma notify_ok:
  assumes "dmda_push_task_notify rt now dt t w pw ctx_id = Inr (r, dt')" "queue_array dt w = Some f"
    "\<not> isnan (exp_len f)"
  shows "fifo_ok_at dt' w"
proof -
  let ?p = "expected_length rt t (perf_archtype rt pw) (nimpl t)"
  let ?tr = "expected_data_transfer_time rt (memory_node rt w) t"
  from with_fifo_Inr [OF assms(1) [unfolded dmda_push_task_notify_def]] assms(2)
  obtain f' where k: "ebind (notify_transfer rt now (num_priorities dt) ?tr t
                      (refresh_start_nan now f))
               (\<lambda>(t1, f2).
                  ebind (notify_length rt (num_priorities dt) ?p t1 f2)
                    (\<lambda>(t2, f3). notify_count rt (num_priorities dt) t2 f3)) = Inr (r, f')"
    and dt': "dt' = dt\<lparr>queue_array := (queue_array dt)(w \<mapsto> f')\<rparr>"
    by (auto simp: Let_def)
  from ebind_Inr2 [OF k] obtain t1 f2 where
    a: "notify_transfer rt now (num_priorities dt) ?tr t (refresh_start_nan now f) = Inr (t1, f2)"
    and k2: "ebind (notify_length rt (num_priorities dt) ?p t1 f2)
                    (\<lambda>(t2, f3). notify_count rt (num_priorities dt) t2 f3) = Inr (r, f')"
    by blast
  from ebind_Inr2 [OF k2] obtain t2 f3 where
    b: "notify_length rt (num_priorities dt) ?p t1 f2 = Inr (t2, f3)"
    and c: "notify_count rt (num_priorities dt) t2 f3 = Inr (r, f')"
    by blast
  have "horizon_ok f'"
    using notify_count_ok [OF c] notify_length_ok [OF b] notify_transfer_ok [OF a]
      refresh_start_nan_ok [OF assms(3)] by blast
  with dt' show ?thesis by (simp add: fifo_ok_at_def)
qed

text \<open>
  C1. Let the FIFO of worker \<open>w\<close> exist with an \<^verbatim>\<open>exp_len\<close> that is a number. Whenever
  one of the mutating operations returns --- the commit of \<^verbatim>\<open>push_task_on_best_worker\<close>
  on \<open>w\<close>, \<^verbatim>\<open>dmda_pre_exec_hook\<close>, \<^verbatim>\<open>dmda_post_exec_hook\<close>, \<^verbatim>\<open>dmda_push_task_notify\<close>,
  \<^verbatim>\<open>dmda_pop_task\<close>, \<^verbatim>\<open>dmda_pop_ready_task\<close> or \<^verbatim>\<open>dmda_pop_every_task\<close> --- the FIFO
  of \<open>w\<close> satisfies \<^verbatim>\<open>exp_end = exp_start + exp_len\<close>, with \<^verbatim>\<open>exp_end\<close> a number. In the
  model the arithmetic is exact, so the equation holds exactly.
\<close>

theorem horizon_invariant_after_operations:
  assumes "queue_array dt w = Some f" and "\<not> isnan (exp_len f)"
  shows "(\<forall>t p ptr prio c ret t' d.
            push_task_on_best_worker rt now dt t (int w) p ptr prio c = Inr ((ret, Committed, t'), d)
            \<longrightarrow> fifo_ok_at d w) \<and>
         (\<forall>t u d. dmda_pre_exec_hook rt now dt w t = Inr (u, d) \<longrightarrow> fifo_ok_at d w) \<and>
         (\<forall>t u d. dmda_post_exec_hook now dt w t = Inr (u, d) \<longrightarrow> fifo_ok_at d w) \<and>
         (\<forall>t pw c t' d. dmda_push_task_notify rt now dt t w pw c = Inr (t', d) \<longrightarrow> fifo_ok_at d w) \<and>
         (\<forall>r d. dmda_pop_task now dt w = Inr (r, d) \<longrightarrow> fifo_ok_at d w) \<and>
         (\<forall>r d. dmda_pop_ready_task rt now dt w = Inr (r, d) \<longrightarrow> fifo_ok_at d w) \<and>
         (\<forall>r d. dmda_pop_every_task now dt w = Inr (r, d) \<longrightarrow> fifo_ok_at d w)"
proof (intro conjI allI impI)
  fix t p ptr prio c ret t' d
  assume "push_task_on_best_worker rt now dt t (int w) p ptr prio c = Inr ((ret, Committed, t'), d)"
  from push_commit_ok [OF this] assms show "fifo_ok_at d w" by simp
next
  fix t u d assume "dmda_pre_exec_hook rt now dt w t = Inr (u, d)"
  then show "fifo_ok_at d w" using assms by (rule pre_exec_ok)
next
  fix t u d assume "dmda_post_exec_hook now dt w t = Inr (u, d)"
  then show "fifo_ok_at d w" using assms by (rule post_exec_ok)
next
  fix t pw c t' d assume "dmda_push_task_notify rt now dt t w pw c = Inr (t', d)"
  then show "fifo_ok_at d w" using assms by (rule notify_ok)
next
  fix r d assume "dmda_pop_task now dt w = Inr (r, d)"
  then show "fifo_ok_at d w" using assms by (rule pop_task_ok)
next
  fix r d assume "dmda_pop_ready_task rt now dt w = Inr (r, d)"
  then show "fifo_ok_at d w" using assms by (rule pop_ready_ok)
next
  fix r d assume "dmda_pop_every_task now dt w = Inr (r, d)"
  then show "fifo_ok_at d w" using assms by (rule pop_every_ok)
qed

theorem horizon_invariant_after_operations_witness:
  "(\<exists>ret t' d. push_task_on_best_worker rt_S1 10 dt_S1 task_T (int 0) (Fin 100) (Fin 0) False 0
                  = Inr ((ret, Committed, t'), d) \<and> fifo_ok_at d 0) \<and>
   (\<exists>u d. dmda_pre_exec_hook rt_S1 10 dt_S1 0 (task_T\<lparr>predicted := Fin 100\<rparr>) = Inr (u, d)
           \<and> fifo_ok_at d 0) \<and>
   (\<exists>u d. dmda_post_exec_hook 10 dt_S1 0 task_T = Inr (u, d) \<and> fifo_ok_at d 0) \<and>
   (\<exists>t' d. dmda_push_task_notify rt_S1 10 dt_S1 task_T 0 0 0 = Inr (t', d) \<and> fifo_ok_at d 0) \<and>
   (\<exists>r d. dmda_pop_task 10 dt_S1 0 = Inr (r, d) \<and> fifo_ok_at d 0) \<and>
   (\<exists>r d. dmda_pop_ready_task rt_S1 10 dt_S1 0 = Inr (r, d) \<and> fifo_ok_at d 0) \<and>
   (\<exists>r d. dmda_pop_every_task 10 dt_S1 0 = Inr (r, d) \<and> fifo_ok_at d 0)"
proof -
  have h1: "queue_array dt_S1 0 = Some (mk_fifo [])" by (simp add: dt_S1_def)
  have h2: "\<not> isnan (exp_len (mk_fifo []))" by (simp add: mk_fifo_def)
  note T = horizon_invariant_after_operations [OF h1 h2, where rt = rt_S1 and now = 10]
  have e1: "\<exists>ret t' d. push_task_on_best_worker rt_S1 10 dt_S1 task_T (int 0) (Fin 100) (Fin 0) False 0
                  = Inr ((ret, Committed, t'), d)"
    by (simp add: push_task_on_best_worker_def rt_S1_def dt_S1_def with_fifo_def ebind_def
          push_horizon_def push_insert_def refresh_start_nan_def residual_transfer_def
          add_to_horizon_def for_buckets_def STARPU_MAX_def mk_fifo_def Let_def)
  have e2: "\<exists>u d. dmda_pre_exec_hook rt_S1 10 dt_S1 0 (task_T\<lparr>predicted := Fin 100\<rparr>) = Inr (u, d)"
    by (simp add: dmda_pre_exec_hook_def rt_S1_def dt_S1_def with_fifo_def ebind_def
          transfer_is_over_def start_computation_def refresh_start_def task_T_def mk_task_def
          for_buckets_def STARPU_MAX_def mk_fifo_def Let_def)
  have e3: "\<exists>u d. dmda_post_exec_hook 10 dt_S1 0 task_T = Inr (u, d)"
    by (simp add: dmda_post_exec_hook_def dt_S1_def with_fifo_def ebind_def Let_def)
  have e4: "\<exists>t' d. dmda_push_task_notify rt_S1 10 dt_S1 task_T 0 0 0 = Inr (t', d)"
    by (simp add: dmda_push_task_notify_def rt_S1_def dt_S1_def with_fifo_def ebind_def
          notify_transfer_def notify_length_def notify_count_def refresh_start_nan_def
          residual_transfer_def add_to_horizon_def for_buckets_def STARPU_MAX_def mk_fifo_def
          Let_def)
  have e5: "\<exists>r d. dmda_pop_task 10 dt_S1 0 = Inr (r, d)"
    by (simp add: dmda_pop_task_def dt_S1_def with_fifo_def ebind_def
          starpu_fifo_pop_local_task_def refresh_start_def mk_fifo_def Let_def)
  have e6: "\<exists>r d. dmda_pop_ready_task rt_S1 10 dt_S1 0 = Inr (r, d)"
    by (simp add: dmda_pop_ready_task_def rt_S1_def dt_S1_def with_fifo_def ebind_def
          starpu_fifo_pop_first_ready_task_def refresh_start_def mk_fifo_def Let_def)
  have e7: "\<exists>r d. dmda_pop_every_task 10 dt_S1 0 = Inr (r, d)"
    by (simp add: dmda_pop_every_task_def dt_S1_def with_fifo_def ebind_def
          starpu_fifo_pop_every_task_def refresh_start_def mk_fifo_def Let_def)
  note T1 = T [THEN conjunct1, rule_format]
  note T2 = T [THEN conjunct2, THEN conjunct1, rule_format]
  note T3 = T [THEN conjunct2, THEN conjunct2, THEN conjunct1, rule_format]
  note T4 = T [THEN conjunct2, THEN conjunct2, THEN conjunct2, THEN conjunct1, rule_format]
  note T5 = T [THEN conjunct2, THEN conjunct2, THEN conjunct2, THEN conjunct2,
               THEN conjunct1, rule_format]
  note T6 = T [THEN conjunct2, THEN conjunct2, THEN conjunct2, THEN conjunct2,
               THEN conjunct2, THEN conjunct1, rule_format]
  note T7 = T [THEN conjunct2, THEN conjunct2, THEN conjunct2, THEN conjunct2,
               THEN conjunct2, THEN conjunct2, rule_format]
  from e1 obtain ret t' d1 where x1:
    "push_task_on_best_worker rt_S1 10 dt_S1 task_T (int 0) (Fin 100) (Fin 0) False 0
       = Inr ((ret, Committed, t'), d1)" by (elim exE)
  from e2 obtain u2 d2 where x2:
    "dmda_pre_exec_hook rt_S1 10 dt_S1 0 (task_T\<lparr>predicted := Fin 100\<rparr>) = Inr (u2, d2)"
    by (elim exE)
  from e3 obtain u3 d3 where x3: "dmda_post_exec_hook 10 dt_S1 0 task_T = Inr (u3, d3)"
    by (elim exE)
  from e4 obtain t4 d4 where x4: "dmda_push_task_notify rt_S1 10 dt_S1 task_T 0 0 0 = Inr (t4, d4)"
    by (elim exE)
  from e5 obtain r5 d5 where x5: "dmda_pop_task 10 dt_S1 0 = Inr (r5, d5)" by (elim exE)
  from e6 obtain r6 d6 where x6: "dmda_pop_ready_task rt_S1 10 dt_S1 0 = Inr (r6, d6)"
    by (elim exE)
  from e7 obtain r7 d7 where x7: "dmda_pop_every_task 10 dt_S1 0 = Inr (r7, d7)" by (elim exE)
  from x1 T1 [OF x1] have c1: "\<exists>ret t' d. push_task_on_best_worker rt_S1 10 dt_S1 task_T (int 0) (Fin 100) (Fin 0) False 0
                  = Inr ((ret, Committed, t'), d) \<and> fifo_ok_at d 0" by (intro exI conjI)
  from x2 T2 [OF x2] have c2: "\<exists>u d. dmda_pre_exec_hook rt_S1 10 dt_S1 0 (task_T\<lparr>predicted := Fin 100\<rparr>) = Inr (u, d)
           \<and> fifo_ok_at d 0" by (intro exI conjI)
  from x3 T3 [OF x3] have c3: "\<exists>u d. dmda_post_exec_hook 10 dt_S1 0 task_T = Inr (u, d) \<and> fifo_ok_at d 0"
    by (intro exI conjI)
  from x4 T4 [OF x4] have c4: "\<exists>t' d. dmda_push_task_notify rt_S1 10 dt_S1 task_T 0 0 0 = Inr (t', d) \<and> fifo_ok_at d 0"
    by (intro exI conjI)
  from x5 T5 [OF x5] have c5: "\<exists>r d. dmda_pop_task 10 dt_S1 0 = Inr (r, d) \<and> fifo_ok_at d 0"
    by (intro exI conjI)
  from x6 T6 [OF x6] have c6: "\<exists>r d. dmda_pop_ready_task rt_S1 10 dt_S1 0 = Inr (r, d) \<and> fifo_ok_at d 0"
    by (intro exI conjI)
  from x7 T7 [OF x7] have c7: "\<exists>r d. dmda_pop_every_task 10 dt_S1 0 = Inr (r, d) \<and> fifo_ok_at d 0"
    by (intro exI conjI)
  from c1 c2 c3 c4 c5 c6 c7 show ?thesis by (intro conjI)
qed

subsection \<open>The data-aware pop\<close>

lemma count_non_ready_buffers_nonneg: "0 \<le> count_non_ready_buffers t node"
  by (simp add: count_non_ready_buffers_def)

lemma first_ready_scan_spec:
  assumes "0 < nrb"
    and "first_ready_scan node fp ys pos best nrb = (i, stop)"
  shows "(i = best \<and> stop = None \<and>
           (\<forall>u\<in>set ys. fp \<le> priority u \<longrightarrow> nrb \<le> count_non_ready_buffers u node))
       \<or> (\<exists>pre t post. ys = pre @ t # post \<and> i = pos + length pre \<and>
             fp \<le> priority t \<and> count_non_ready_buffers t node < nrb \<and>
             (\<forall>u\<in>set pre. fp \<le> priority u \<longrightarrow>
                 count_non_ready_buffers t node < count_non_ready_buffers u node) \<and>
             (\<forall>u\<in>set post. fp \<le> priority u \<longrightarrow>
                 count_non_ready_buffers t node \<le> count_non_ready_buffers u node) \<and>
             stop = (if count_non_ready_buffers t node = 0 then Some i else None))"
  using assms
proof (induction ys arbitrary: pos best nrb)
  case Nil
  then show ?case by simp
next
  case (Cons c rest)
  let ?cnt = "\<lambda>u. count_non_ready_buffers u node"
  show ?case
  proof (cases "fp \<le> priority c \<and> ?cnt c < nrb")
    case False
    then have rec: "first_ready_scan node fp rest (pos + 1) best nrb = (i, stop)"
      using Cons.prems(2) by (auto simp: Let_def split: if_splits)
    from Cons.IH [OF Cons.prems(1) rec] show ?thesis
    proof
      assume "i = best \<and> stop = None \<and> (\<forall>u\<in>set rest. fp \<le> priority u \<longrightarrow> nrb \<le> ?cnt u)"
      with False show ?thesis by auto
    next
      assume "\<exists>pre t post. rest = pre @ t # post \<and> i = pos + 1 + length pre \<and>
             fp \<le> priority t \<and> ?cnt t < nrb \<and>
             (\<forall>u\<in>set pre. fp \<le> priority u \<longrightarrow> ?cnt t < ?cnt u) \<and>
             (\<forall>u\<in>set post. fp \<le> priority u \<longrightarrow> ?cnt t \<le> ?cnt u) \<and>
             stop = (if ?cnt t = 0 then Some i else None)"
      then obtain pre t post where h: "rest = pre @ t # post" "i = pos + 1 + length pre"
             "fp \<le> priority t" "?cnt t < nrb"
             "\<forall>u\<in>set pre. fp \<le> priority u \<longrightarrow> ?cnt t < ?cnt u"
             "\<forall>u\<in>set post. fp \<le> priority u \<longrightarrow> ?cnt t \<le> ?cnt u"
             "stop = (if ?cnt t = 0 then Some i else None)" by blast
      have "c # rest = (c # pre) @ t # post" using h(1) by simp
      moreover have "i = pos + length (c # pre)" using h(2) by simp
      moreover have "\<forall>u\<in>set (c # pre). fp \<le> priority u \<longrightarrow> ?cnt t < ?cnt u"
        using h(4,5) False by auto
      ultimately show ?thesis using h(3,4,6,7) by blast
    qed
  next
    case True
    show ?thesis
    proof (cases "?cnt c = 0")
      case True
      with \<open>fp \<le> priority c \<and> ?cnt c < nrb\<close> Cons.prems(2)
      have "i = pos" "stop = Some pos" by (auto simp: Let_def)
      moreover have "c # rest = [] @ c # rest" by simp
      moreover have "\<forall>u\<in>set rest. fp \<le> priority u \<longrightarrow> ?cnt c \<le> ?cnt u"
        using True count_non_ready_buffers_nonneg by simp
      ultimately show ?thesis using \<open>fp \<le> priority c \<and> ?cnt c < nrb\<close> True
        by (intro disjI2 exI [of _ "[]"] exI [of _ c] exI [of _ rest]) simp
    next
      case False
      have pos': "0 < ?cnt c"
        using False count_non_ready_buffers_nonneg [of c node] by linarith
      have rec: "first_ready_scan node fp rest (pos + 1) pos (?cnt c) = (i, stop)"
        using True False Cons.prems(2) by (auto simp: Let_def)
      from Cons.IH [OF pos' rec] show ?thesis
      proof
        assume a: "i = pos \<and> stop = None \<and> (\<forall>u\<in>set rest. fp \<le> priority u \<longrightarrow> ?cnt c \<le> ?cnt u)"
        have "c # rest = [] @ c # rest" by simp
        with a True False show ?thesis
          by (intro disjI2 exI [of _ "[]"] exI [of _ c] exI [of _ rest]) simp
      next
        assume "\<exists>pre t post. rest = pre @ t # post \<and> i = pos + 1 + length pre \<and>
             fp \<le> priority t \<and> ?cnt t < ?cnt c \<and>
             (\<forall>u\<in>set pre. fp \<le> priority u \<longrightarrow> ?cnt t < ?cnt u) \<and>
             (\<forall>u\<in>set post. fp \<le> priority u \<longrightarrow> ?cnt t \<le> ?cnt u) \<and>
             stop = (if ?cnt t = 0 then Some i else None)"
        then obtain pre t post where h: "rest = pre @ t # post" "i = pos + 1 + length pre"
             "fp \<le> priority t" "?cnt t < ?cnt c"
             "\<forall>u\<in>set pre. fp \<le> priority u \<longrightarrow> ?cnt t < ?cnt u"
             "\<forall>u\<in>set post. fp \<le> priority u \<longrightarrow> ?cnt t \<le> ?cnt u"
             "stop = (if ?cnt t = 0 then Some i else None)" by blast
        have "c # rest = (c # pre) @ t # post" using h(1) by simp
        moreover have "i = pos + length (c # pre)" using h(2) by simp
        moreover have "\<forall>u\<in>set (c # pre). fp \<le> priority u \<longrightarrow> ?cnt t < ?cnt u"
          using h(4,5) by auto
        moreover have "?cnt t < nrb" using h(4) True by linarith
        ultimately show ?thesis using h(3,6,7) by blast
      qed
    qed
  qed
qed


text \<open>
  C2 (as amended). Whenever \<^verbatim>\<open>_starpu_fifo_pop_first_ready_task\<close> returns a task \<open>t\<close>
  from a queue (whose tasks have fewer than \<^verbatim>\<open>INT_MAX\<close> buffers), the queue was
  \<open>pre @ t # post\<close> and is \<open>pre @ post\<close> afterwards; \<open>t\<close> has at least the head's
  priority; every task before \<open>t\<close> with at least the head's priority has strictly more
  non-ready buffers than \<open>t\<close> (so that ties go to the earliest position), and no task
  after \<open>t\<close> with at least the head's priority has fewer; the scan is left at \<open>t\<close>
  exactly when \<open>t\<close> has no non-ready buffer, and runs to the end of the queue
  otherwise. The non-ready count is that of \<^verbatim>\<open>count_non_ready_buffers\<close>: validity is
  asked at the worker's node, or, for a codelet with \<^verbatim>\<open>specific_nodes\<close>, at the node
  the codelet designates for the buffer.
\<close>

theorem pop_first_ready_selects:
  assumes small: "\<forall>u\<in>set (taskq f). int (length (buffers u)) < INT_MAX"
    and pop: "starpu_fifo_pop_first_ready_task cs f node np = Inr (Some t, f')"
  shows "\<exists>pre post.
           taskq f = pre @ t # post \<and> taskq f' = pre @ post \<and>
           priority (hd (taskq f)) \<le> priority t \<and>
           (\<forall>u\<in>set pre. priority (hd (taskq f)) \<le> priority u \<longrightarrow>
               count_non_ready_buffers t node < count_non_ready_buffers u node) \<and>
           (\<forall>u\<in>set post. priority (hd (taskq f)) \<le> priority u \<longrightarrow>
               count_non_ready_buffers t node \<le> count_non_ready_buffers u node) \<and>
           snd (first_ready_scan node (priority (hd (taskq f))) (taskq f) 0 0 INT_MAX)
             = (if count_non_ready_buffers t node = 0 then Some (length pre) else None)"
proof -
  let ?cnt = "\<lambda>u. count_non_ready_buffers u node"
  have ne: "taskq f \<noteq> []"
  proof
    assume "taskq f = []"
    with pop show False
      by (simp add: starpu_fifo_pop_first_ready_task_def Let_def split: if_splits)
  qed
  then obtain front rest where q: "taskq f = front # rest"
    by (cases "taskq f") auto
  let ?fp = "priority front"
  obtain i stop where sc: "first_ready_scan node ?fp (taskq f) 0 0 INT_MAX = (i, stop)"
    by (cases "first_ready_scan node ?fp (taskq f) 0 0 INT_MAX")
  have nz: "ntasks f \<noteq> 0"
    using pop by (auto simp: starpu_fifo_pop_first_ready_task_def)
  have unf: "starpu_fifo_pop_first_ready_task cs f node np =
      ebind (for_buckets cs np (taskq f ! i) (\<lambda>n. n - 1) (ntasks_per_priority f))
        (\<lambda>npp. Inr (Some (taskq f ! i),
           f\<lparr>ntasks := ntasks f - 1, ntasks_per_priority := npp,
              taskq := take i (taskq f) @ drop (Suc i) (taskq f)\<rparr>))"
    using nz q sc by (simp add: starpu_fifo_pop_first_ready_task_def Let_def)
  from pop have t: "t = taskq f ! i"
      and q': "taskq f' = take i (taskq f) @ drop (Suc i) (taskq f)"
    unfolding unf ebind_def by (auto split: sum.splits)
  have "?cnt front \<le> int (length (buffers front))"
    by (simp add: count_non_ready_buffers_def)
  moreover have "int (length (buffers front)) < INT_MAX"
    using small q by simp
  ultimately have front_small: "?cnt front < INT_MAX" by linarith
  have "0 < INT_MAX" by (simp add: INT_MAX_def)
  from first_ready_scan_spec [OF this sc]
  have "\<exists>pre t' post. taskq f = pre @ t' # post \<and> i = 0 + length pre \<and>
             ?fp \<le> priority t' \<and> ?cnt t' < INT_MAX \<and>
             (\<forall>u\<in>set pre. ?fp \<le> priority u \<longrightarrow> ?cnt t' < ?cnt u) \<and>
             (\<forall>u\<in>set post. ?fp \<le> priority u \<longrightarrow> ?cnt t' \<le> ?cnt u) \<and>
             stop = (if ?cnt t' = 0 then Some i else None)"
  proof
    assume "i = 0 \<and> stop = None \<and> (\<forall>u\<in>set (taskq f). ?fp \<le> priority u \<longrightarrow> INT_MAX \<le> ?cnt u)"
    then have "INT_MAX \<le> ?cnt front" using q by simp
    with front_small show ?thesis by simp
  qed
  then obtain pre t' post where h: "taskq f = pre @ t' # post" "i = length pre"
      "?fp \<le> priority t'"
      "\<forall>u\<in>set pre. ?fp \<le> priority u \<longrightarrow> ?cnt t' < ?cnt u"
      "\<forall>u\<in>set post. ?fp \<le> priority u \<longrightarrow> ?cnt t' \<le> ?cnt u"
      "stop = (if ?cnt t' = 0 then Some i else None)"
    by auto
  from h(1,2) t have tt: "t' = t" by simp
  from h(1,2) q' have q'': "taskq f' = pre @ post" by simp
  have hd: "hd (taskq f) = front" using q by simp
  have sn: "snd (first_ready_scan node (priority (hd (taskq f))) (taskq f) 0 0 INT_MAX)
      = (if ?cnt t = 0 then Some (length pre) else None)"
    using sc h(6) h(2) tt hd by simp
  show ?thesis
    apply (rule exI [of _ pre], rule exI [of _ post])
    using h(1,3,4,5) tt q'' sn hd by simp
qed

theorem pop_first_ready_selects_witness:
  "starpu_fifo_pop_first_ready_task (\<lambda>_. ctx_unset) (mk_fifo [S5_A, S5_B, S5_C]) 0 (-1)
      = Inr (Some S5_B, (mk_fifo [S5_A, S5_B, S5_C])\<lparr>ntasks := 2, taskq := [S5_A, S5_C]\<rparr>) \<and>
   (\<exists>pre post.
           taskq (mk_fifo [S5_A, S5_B, S5_C]) = pre @ S5_B # post \<and>
           taskq ((mk_fifo [S5_A, S5_B, S5_C])\<lparr>ntasks := 2, taskq := [S5_A, S5_C]\<rparr>) = pre @ post \<and>
           priority (hd (taskq (mk_fifo [S5_A, S5_B, S5_C]))) \<le> priority S5_B \<and>
           (\<forall>u\<in>set pre. priority (hd (taskq (mk_fifo [S5_A, S5_B, S5_C]))) \<le> priority u \<longrightarrow>
               count_non_ready_buffers S5_B 0 < count_non_ready_buffers u 0) \<and>
           (\<forall>u\<in>set post. priority (hd (taskq (mk_fifo [S5_A, S5_B, S5_C]))) \<le> priority u \<longrightarrow>
               count_non_ready_buffers S5_B 0 \<le> count_non_ready_buffers u 0) \<and>
           snd (first_ready_scan 0 (priority (hd (taskq (mk_fifo [S5_A, S5_B, S5_C]))))
                  (taskq (mk_fifo [S5_A, S5_B, S5_C])) 0 0 INT_MAX)
             = (if count_non_ready_buffers S5_B 0 = 0 then Some (length pre) else None))"
proof -
  let ?F = "mk_fifo [S5_A, S5_B, S5_C]"
  have h1: "\<forall>u\<in>set (taskq ?F). int (length (buffers u)) < INT_MAX"
    by (simp add: mk_fifo_def S5_A_def S5_B_def S5_C_def mk_task_def INT_MAX_def)
  have h2: "starpu_fifo_pop_first_ready_task (\<lambda>_. ctx_unset) ?F 0 (-1)
      = Inr (Some S5_B, ?F\<lparr>ntasks := 2, taskq := [S5_A, S5_C]\<rparr>)"
    by (simp add: starpu_fifo_pop_first_ready_task_def mk_fifo_def S5_A_def S5_B_def S5_C_def
          mk_task_def INT_MAX_def Let_def ebind_def for_buckets_def count_non_ready_buffers_def
          is_valid_def)
  show ?thesis
    using h2 pop_first_ready_selects [OF h1 h2] by (rule conjI)
qed

text \<open>
  C2 as stated counts the non-ready buffers at the worker's node \<open>n\<close>. On the queue
  \<open>[pinned_A, pinned_B]\<close> popped at node 0 the function returns \<open>pinned_B\<close>, which is
  not the head, although the head, of the same priority, has no more buffers that are
  invalid at node 0 than \<open>pinned_B\<close> has (one each): the buffer of \<open>pinned_B\<close> is
  counted at the node its codelet designates.
\<close>

theorem pop_first_ready_counts_at_designated_node:
  "starpu_fifo_pop_first_ready_task (\<lambda>_. ctx_unset) (mk_fifo [pinned_A, pinned_B]) 0 (-1)
      = Inr (Some pinned_B, (mk_fifo [pinned_A, pinned_B])\<lparr>ntasks := 1, taskq := [pinned_A]\<rparr>) \<and>
   pinned_B \<noteq> hd (taskq (mk_fifo [pinned_A, pinned_B])) \<and>
   priority (hd (taskq (mk_fifo [pinned_A, pinned_B]))) \<le> priority pinned_A \<and>
   \<not> spec_non_ready_at pinned_B 0 < spec_non_ready_at pinned_A 0"
  by (simp add: starpu_fifo_pop_first_ready_task_def mk_fifo_def pinned_A_def pinned_B_def
        mk_task_def INT_MAX_def Let_def ebind_def for_buckets_def count_non_ready_buffers_def
        spec_non_ready_at_def is_valid_def)

subsection \<open>The greedy fallback of the two decisions\<close>

lemma dm_impl_step_unknown:
  "dm_unknown (dm_impl_step rt t w f es msk n st) =
     (dm_unknown st \<or> (bit msk n \<and> no_prediction (expected_length rt t (perf_archtype rt w) n)))"
  by (simp add: dm_impl_step_def Let_def no_prediction_def)

lemma dm_impl_fold_unknown:
  "dm_unknown (fold (dm_impl_step rt t w f es msk) ns st) =
     (dm_unknown st \<or> (\<exists>n\<in>set ns. bit msk n \<and>
                          no_prediction (expected_length rt t (perf_archtype rt w) n)))"
  by (induction ns arbitrary: st) (auto simp: dm_impl_step_unknown)

lemma dm_worker_step_unknown:
  assumes "dm_worker_step rt now dt t w st = Inr st'"
  shows "dm_unknown st' =
     (dm_unknown st \<or> (\<exists>n. fst (can_execute_task_impl rt w t) \<and> n < maximpl rt \<and>
                           bit (snd (can_execute_task_impl rt w t)) n \<and>
                           no_prediction (expected_length rt t (perf_archtype rt w) n)))"
  using assms
  by (auto simp: dm_worker_step_def Let_def dm_impl_fold_unknown split: option.splits if_splits)

lemma dm_efold_unknown:
  assumes "efold (dm_worker_step rt now dt t) ws st = Inr st'"
  shows "dm_unknown st' =
     (dm_unknown st \<or> (\<exists>w\<in>set ws. \<exists>n. fst (can_execute_task_impl rt w t) \<and> n < maximpl rt \<and>
                           bit (snd (can_execute_task_impl rt w t)) n \<and>
                           no_prediction (expected_length rt t (perf_archtype rt w) n)))"
  using assms
proof (induction ws arbitrary: st)
  case Nil
  then show ?case by simp
next
  case (Cons w ws)
  from efold_Inr_Cons [OF Cons.prems] obtain s1 where
    a: "dm_worker_step rt now dt t w st = Inr s1" and
    b: "efold (dm_worker_step rt now dt t) ws s1 = Inr st'" by blast
  show ?case
    unfolding Cons.IH [OF b] dm_worker_step_unknown [OF a] by auto
qed

lemma dm_scan_unknown:
  assumes "dm_scan rt now dt t = Inr st"
  shows "dm_unknown st =
     (\<exists>w n. eligible rt t w n \<and> no_prediction (expected_length rt t (perf_archtype rt w) n))"
  using dm_efold_unknown [OF assms [unfolded dm_scan_def]]
  by (auto simp: dm_init_def eligible_def)

text \<open>Once a candidate was examined, the greedy candidate is a worker.\<close>

lemma dm_impl_step_greedy:
  "dm_unknown st \<longrightarrow> dm_ntasks_best st \<noteq> -1 \<Longrightarrow>
   dm_unknown (dm_impl_step rt t w f es msk n st) \<longrightarrow>
     dm_ntasks_best (dm_impl_step rt t w f es msk n st) \<noteq> -1"
  by (auto simp: dm_impl_step_def Let_def greedy_takes_def)

lemma dm_impl_fold_greedy:
  "dm_unknown st \<longrightarrow> dm_ntasks_best st \<noteq> -1 \<Longrightarrow>
   dm_unknown (fold (dm_impl_step rt t w f es msk) ns st) \<longrightarrow>
     dm_ntasks_best (fold (dm_impl_step rt t w f es msk) ns st) \<noteq> -1"
proof (induction ns arbitrary: st)
  case Nil
  then show ?case by simp
next
  case (Cons n ns)
  from Cons.IH [OF dm_impl_step_greedy [OF Cons.prems]] show ?case by simp
qed

lemma dm_scan_greedy:
  assumes "dm_scan rt now dt t = Inr st"
  shows "dm_unknown st \<longrightarrow> dm_ntasks_best st \<noteq> -1"
proof (rule efold_invariant [OF assms [unfolded dm_scan_def],
         where P = "\<lambda>s. dm_unknown s \<longrightarrow> dm_ntasks_best s \<noteq> -1"])
  show "dm_unknown dm_init \<longrightarrow> dm_ntasks_best dm_init \<noteq> - 1" by (simp add: dm_init_def)
next
  fix x a b
  assume "dm_worker_step rt now dt t x a = Inr b" "dm_unknown a \<longrightarrow> dm_ntasks_best a \<noteq> - 1"
  then show "dm_unknown b \<longrightarrow> dm_ntasks_best b \<noteq> - 1"
    using dm_impl_fold_greedy
    by (auto simp: dm_worker_step_def Let_def split: option.splits if_splits)
qed

text \<open>The same for \<^verbatim>\<open>compute_all_performance_predictions\<close>, one source block at a time.\<close>

lemma cp_store_scalars:
  "cp_worker_ctx (cp_store rt t w es n prev st) = cp_worker_ctx st"
  "cp_unknown (cp_store rt t w es n prev st) = cp_unknown st"
  by (simp_all add: cp_store_def Let_def)

lemma cp_store_entry:
  "cp_entry (cp_store rt t w es n prev st) k m =
     (if k = cp_worker_ctx st \<and> m = n
      then (dadd es prev, cand_length rt t w n, cand_penalty rt t w, cand_energy rt t w n)
      else cp_entry st k m)"
  by (simp add: cp_store_def Let_def cp_entry_def upd2_def)

lemma cp_greedy_scalars:
  "cp_worker_ctx (cp_greedy rt w n fn st) = cp_worker_ctx st"
  "cp_unknown (cp_greedy rt w n fn st) =
     (cp_unknown st \<or> no_prediction (local_task_length st (cp_worker_ctx st) n))"
  "cp_ntasks_best (cp_greedy rt w n fn st) \<noteq> -1"
  by (simp_all add: cp_greedy_def Let_def no_prediction_def greedy_takes_def)

lemma cp_greedy_entry: "cp_entry (cp_greedy rt w n fn st) k m = cp_entry st k m"
  by (simp add: cp_greedy_def Let_def cp_entry_def)

lemma cp_finish_scalars:
  "cp_worker_ctx (cp_finish es n prev st) = cp_worker_ctx st"
  "cp_unknown (cp_finish es n prev st) = cp_unknown st"
  "cp_ntasks_best (cp_finish es n prev st) = cp_ntasks_best st"
  by (simp_all add: cp_finish_def Let_def)

lemma cp_finish_entry:
  "cp_entry (cp_finish es n prev st) k m =
     (if k = cp_worker_ctx st \<and> m = n
      then (dadd (dadd es prev) (local_task_length st k m), local_task_length st k m,
            local_data_penalty st k m,
            (if isnan (local_energy st k m) then Fin 0 else local_energy st k m))
      else cp_entry st k m)"
  by (simp add: cp_finish_def Let_def cp_entry_def upd2_def)

lemma cp_entry_length: "fst (snd (cp_entry st k m)) = local_task_length st k m"
  by (simp add: cp_entry_def)

lemma cp_candidate_unknown:
  "cp_unknown (cp_candidate rt t w es n prev fn st) =
     (cp_unknown st \<or> no_prediction (cand_length rt t w n))"
proof -
  have "local_task_length (cp_store rt t w es n prev st) (cp_worker_ctx st) n
          = cand_length rt t w n"
    using cp_store_entry [of rt t w es n prev st "cp_worker_ctx st" n]
    by (simp add: cp_entry_def)
  then show ?thesis
    by (simp add: cp_candidate_def Let_def cp_finish_scalars cp_greedy_scalars cp_store_scalars)
qed

lemma cp_candidate_worker_ctx:
  "cp_worker_ctx (cp_candidate rt t w es n prev fn st) = cp_worker_ctx st"
  by (simp add: cp_candidate_def Let_def cp_finish_scalars cp_greedy_scalars cp_store_scalars)

lemma cp_candidate_greedy:
  "cp_ntasks_best (cp_candidate rt t w es n prev fn st) \<noteq> -1"
  by (simp add: cp_candidate_def Let_def cp_finish_scalars cp_greedy_scalars)

lemma cp_candidate_frame:
  "(k, m) \<noteq> (cp_worker_ctx st, n) \<Longrightarrow>
     cp_entry (cp_candidate rt t w es n prev fn st) k m = cp_entry st k m"
  by (auto simp: cp_candidate_def Let_def cp_finish_entry cp_greedy_entry cp_store_entry
        cp_greedy_scalars cp_store_scalars)

lemma cp_candidate_entry:
  assumes "\<not> cp_unknown (cp_candidate rt t w es n prev fn st)"
  shows "cp_entry (cp_candidate rt t w es n prev fn st) (cp_worker_ctx st) n
       = cand_entry rt t w n es prev"
proof -
  let ?s1 = "cp_store rt t w es n prev st"
  let ?s2 = "cp_greedy rt w n fn ?s1"
  let ?wc = "cp_worker_ctx st"
  have e2: "cp_entry ?s2 ?wc n
      = (dadd es prev, cand_length rt t w n, cand_penalty rt t w, cand_energy rt t w n)"
    by (simp add: cp_greedy_entry cp_store_entry)
  then have f: "local_task_length ?s2 ?wc n = cand_length rt t w n"
       "local_data_penalty ?s2 ?wc n = cand_penalty rt t w"
       "local_energy ?s2 ?wc n = cand_energy rt t w n"
    by (simp_all add: cp_entry_def)
  from assms have nu: "\<not> cp_unknown ?s2"
    by (simp add: cp_candidate_def Let_def split: if_splits)
  then have "cp_candidate rt t w es n prev fn st = cp_finish es n prev ?s2"
    by (simp add: cp_candidate_def Let_def)
  then show ?thesis
    by (simp add: cp_finish_entry cp_greedy_scalars cp_store_scalars f cand_entry_def)
qed

lemma cp_impl_step_cases:
  assumes "cp_impl_step rt dt t sd tp w fifo es msk n st = Inr st'"
  shows "(\<not> bit msk n \<and> st' = st) \<or>
         (bit msk n \<and> cp_worker_ctx st < nworkers rt \<and>
          (\<exists>prev fn. cand_prev rt dt t sd tp w fifo n = Inr (prev, fn) \<and>
                     st' = cp_candidate rt t w es n prev fn st))"
proof (cases "bit msk n")
  case False
  with assms show ?thesis by (simp add: cp_impl_step_def)
next
  case True
  with assms have e: "ebind (cand_prev rt dt t sd tp w fifo n)
          (\<lambda>(prev_exp_len, fifo_ntasks).
             if \<not> cp_worker_ctx st < nworkers rt then Inl OutOfBounds
             else Inr (cp_candidate rt t w es n prev_exp_len fifo_ntasks st)) = Inr st'"
    by (simp add: cp_impl_step_def)
  from ebind_Inr2 [OF e] True show ?thesis by (auto split: if_splits)
qed

lemma cp_impl_step_worker_ctx:
  "cp_impl_step rt dt t sd tp w fifo es msk n st = Inr st' \<Longrightarrow> cp_worker_ctx st' = cp_worker_ctx st"
  by (auto dest!: cp_impl_step_cases simp: cp_candidate_worker_ctx)

lemma cp_impl_step_unknown:
  "cp_impl_step rt dt t sd tp w fifo es msk n st = Inr st' \<Longrightarrow>
     cp_unknown st' = (cp_unknown st \<or> (bit msk n \<and> no_prediction (cand_length rt t w n)))"
  by (auto dest!: cp_impl_step_cases simp: cp_candidate_unknown)

lemma cp_impl_step_greedy:
  "cp_impl_step rt dt t sd tp w fifo es msk n st = Inr st' \<Longrightarrow>
     cp_unknown st \<longrightarrow> cp_ntasks_best st \<noteq> -1 \<Longrightarrow>
     cp_unknown st' \<longrightarrow> cp_ntasks_best st' \<noteq> -1"
  by (auto dest!: cp_impl_step_cases simp: cp_candidate_greedy)

lemma cp_impl_step_frame:
  "cp_impl_step rt dt t sd tp w fifo es msk n st = Inr st' \<Longrightarrow>
     (k, m) \<noteq> (cp_worker_ctx st, n) \<Longrightarrow> cp_entry st' k m = cp_entry st k m"
  by (auto dest!: cp_impl_step_cases simp: cp_candidate_frame)

lemma cp_inner_worker_ctx:
  "efold (cp_impl_step rt dt t sd tp w fifo es msk) ns st = Inr st' \<Longrightarrow>
     cp_worker_ctx st' = cp_worker_ctx st"
proof (induction ns arbitrary: st)
  case Nil
  then show ?case by simp
next
  case (Cons n ns)
  from efold_Inr_Cons [OF Cons.prems] obtain s1 where
    a: "cp_impl_step rt dt t sd tp w fifo es msk n st = Inr s1" and
    b: "efold (cp_impl_step rt dt t sd tp w fifo es msk) ns s1 = Inr st'" by blast
  from Cons.IH [OF b] cp_impl_step_worker_ctx [OF a] show ?case by simp
qed

lemma cp_inner_unknown:
  "efold (cp_impl_step rt dt t sd tp w fifo es msk) ns st = Inr st' \<Longrightarrow>
     cp_unknown st' =
       (cp_unknown st \<or> (\<exists>n\<in>set ns. bit msk n \<and> no_prediction (cand_length rt t w n)))"
proof (induction ns arbitrary: st)
  case Nil
  then show ?case by simp
next
  case (Cons n ns)
  from efold_Inr_Cons [OF Cons.prems] obtain s1 where
    a: "cp_impl_step rt dt t sd tp w fifo es msk n st = Inr s1" and
    b: "efold (cp_impl_step rt dt t sd tp w fifo es msk) ns s1 = Inr st'" by blast
  show ?case unfolding Cons.IH [OF b] cp_impl_step_unknown [OF a] by auto
qed

lemma cp_inner_greedy:
  "efold (cp_impl_step rt dt t sd tp w fifo es msk) ns st = Inr st' \<Longrightarrow>
     cp_unknown st \<longrightarrow> cp_ntasks_best st \<noteq> -1 \<Longrightarrow>
     cp_unknown st' \<longrightarrow> cp_ntasks_best st' \<noteq> -1"
proof (induction ns arbitrary: st)
  case Nil
  then show ?case by simp
next
  case (Cons n ns)
  from efold_Inr_Cons [OF Cons.prems(1)] obtain s1 where
    a: "cp_impl_step rt dt t sd tp w fifo es msk n st = Inr s1" and
    b: "efold (cp_impl_step rt dt t sd tp w fifo es msk) ns s1 = Inr st'" by blast
  from Cons.IH [OF b cp_impl_step_greedy [OF a Cons.prems(2)]] show ?case .
qed

lemma cp_inner_frame:
  "efold (cp_impl_step rt dt t sd tp w fifo es msk) ns st = Inr st' \<Longrightarrow>
     \<forall>n\<in>set ns. (k, m) \<noteq> (cp_worker_ctx st, n) \<Longrightarrow>
     cp_entry st' k m = cp_entry st k m"
proof (induction ns arbitrary: st)
  case Nil
  then show ?case by simp
next
  case (Cons n ns)
  from efold_Inr_Cons [OF Cons.prems(1)] obtain s1 where
    a: "cp_impl_step rt dt t sd tp w fifo es msk n st = Inr s1" and
    b: "efold (cp_impl_step rt dt t sd tp w fifo es msk) ns s1 = Inr st'" by blast
  have w1: "cp_worker_ctx s1 = cp_worker_ctx st" by (rule cp_impl_step_worker_ctx [OF a])
  have "cp_entry st' k m = cp_entry s1 k m"
    using Cons.IH [OF b] Cons.prems(2) w1 by simp
  also have "\<dots> = cp_entry st k m"
    using cp_impl_step_frame [OF a] Cons.prems(2) by simp
  finally show ?case .
qed

lemma cp_inner_bound:
  "efold (cp_impl_step rt dt t sd tp w fifo es msk) ns st = Inr st' \<Longrightarrow>
     \<exists>n\<in>set ns. bit msk n \<Longrightarrow> cp_worker_ctx st < nworkers rt"
proof (induction ns arbitrary: st)
  case Nil
  then show ?case by simp
next
  case (Cons n ns)
  from efold_Inr_Cons [OF Cons.prems(1)] obtain s1 where
    a: "cp_impl_step rt dt t sd tp w fifo es msk n st = Inr s1" and
    b: "efold (cp_impl_step rt dt t sd tp w fifo es msk) ns s1 = Inr st'" by blast
  have w1: "cp_worker_ctx s1 = cp_worker_ctx st" by (rule cp_impl_step_worker_ctx [OF a])
  show ?case
  proof (cases "bit msk n")
    case True
    with cp_impl_step_cases [OF a] show ?thesis by simp
  next
    case False
    with Cons.prems(2) have "\<exists>n\<in>set ns. bit msk n" by simp
    from Cons.IH [OF b this] w1 show ?thesis by simp
  qed
qed

lemma cp_inner_entry:
  "efold (cp_impl_step rt dt t sd tp w fifo es msk) ns st = Inr st' \<Longrightarrow>
     \<not> cp_unknown st' \<Longrightarrow> distinct ns \<Longrightarrow> n \<in> set ns \<Longrightarrow> bit msk n \<Longrightarrow>
     \<exists>prev fn. cand_prev rt dt t sd tp w fifo n = Inr (prev, fn) \<and>
               cp_entry st' (cp_worker_ctx st) n = cand_entry rt t w n es prev"
proof (induction ns arbitrary: st)
  case Nil
  then show ?case by simp
next
  case (Cons n0 ns)
  from efold_Inr_Cons [OF Cons.prems(1)] obtain s1 where
    a: "cp_impl_step rt dt t sd tp w fifo es msk n0 st = Inr s1" and
    b: "efold (cp_impl_step rt dt t sd tp w fifo es msk) ns s1 = Inr st'" by blast
  have w1: "cp_worker_ctx s1 = cp_worker_ctx st" by (rule cp_impl_step_worker_ctx [OF a])
  have nu1: "\<not> cp_unknown s1"
    using cp_inner_unknown [OF b] Cons.prems(2) by simp
  show ?case
  proof (cases "n = n0")
    case True
    with Cons.prems(3) have notin: "\<forall>n'\<in>set ns. (cp_worker_ctx st, n) \<noteq> (cp_worker_ctx s1, n')"
      by auto
    from cp_impl_step_cases [OF a] True Cons.prems(5) obtain prev fn where
      p: "cand_prev rt dt t sd tp w fifo n = Inr (prev, fn)" and
      s1: "s1 = cp_candidate rt t w es n prev fn st" by auto
    from nu1 s1 have "cp_entry s1 (cp_worker_ctx st) n = cand_entry rt t w n es prev"
      by (simp add: cp_candidate_entry)
    moreover have "cp_entry st' (cp_worker_ctx st) n = cp_entry s1 (cp_worker_ctx st) n"
      by (rule cp_inner_frame [OF b notin])
    ultimately show ?thesis using p by simp
  next
    case False
    with Cons.prems(3,4) have "distinct ns" "n \<in> set ns" by auto
    from Cons.IH [OF b Cons.prems(2) this Cons.prems(5)] w1 show ?thesis by simp
  qed
qed

lemma cp_entry_worker_ctx_update [simp]:
  "cp_entry (st\<lparr>cp_worker_ctx := x\<rparr>) k m = cp_entry st k m"
  by (simp add: cp_entry_def)

lemma cp_worker_step_cases:
  assumes "cp_worker_step rt now dt t sd tp w st = Inr st'"
  shows "\<exists>fifo. queue_array dt w = Some fifo \<and>
           ((\<not> fst (can_execute_task_impl rt w t) \<and> st' = st) \<or>
            (fst (can_execute_task_impl rt w t) \<and>
             (\<exists>s1. efold (cp_impl_step rt dt t sd tp w fifo (current_exp_start now fifo)
                            (snd (can_execute_task_impl rt w t))) [0..<maximpl rt] st = Inr s1 \<and>
                   st' = s1\<lparr>cp_worker_ctx := cp_worker_ctx s1 + 1\<rparr>)))"
proof (cases "queue_array dt w")
  case None
  with assms show ?thesis by (simp add: cp_worker_step_def)
next
  case (Some fifo)
  show ?thesis
  proof (cases "fst (can_execute_task_impl rt w t)")
    case False
    with Some assms show ?thesis by (simp add: cp_worker_step_def Let_def)
  next
    case True
    with Some assms have "ebind (efold (cp_impl_step rt dt t sd tp w fifo
                                  (current_exp_start now fifo) (snd (can_execute_task_impl rt w t)))
                            [0..<maximpl rt] st)
                    (\<lambda>st'. Inr (st'\<lparr>cp_worker_ctx := cp_worker_ctx st' + 1\<rparr>)) = Inr st'"
      by (simp add: cp_worker_step_def Let_def)
    from ebind_Inr [OF this] True Some show ?thesis by auto
  qed
qed

lemma nb_exec_Cons:
  "nb_exec rt t (w # ws) = (if fst (can_execute_task_impl rt w t) then 1 else 0) + nb_exec rt t ws"
  by (simp add: nb_exec_def)

lemma cp_worker_step_worker_ctx:
  assumes "cp_worker_step rt now dt t sd tp w st = Inr st'"
  shows "cp_worker_ctx st' = cp_worker_ctx st + nb_exec rt t [w]"
  using cp_worker_step_cases [OF assms]
  by (auto simp: nb_exec_def dest: cp_inner_worker_ctx)

lemma cp_worker_step_unknown:
  assumes "cp_worker_step rt now dt t sd tp w st = Inr st'"
  shows "cp_unknown st' =
           (cp_unknown st \<or> (\<exists>n. eligible (rt\<lparr>workers := [w]\<rparr>) t w n \<and>
                                 no_prediction (cand_length rt t w n)))"
  using cp_worker_step_cases [OF assms]
  by (auto simp: eligible_def dest!: cp_inner_unknown)

lemma cp_worker_step_greedy:
  assumes "cp_worker_step rt now dt t sd tp w st = Inr st'"
    and "cp_unknown st \<longrightarrow> cp_ntasks_best st \<noteq> -1"
  shows "cp_unknown st' \<longrightarrow> cp_ntasks_best st' \<noteq> -1"
  using cp_worker_step_cases [OF assms(1)] assms(2)
  by (auto dest: cp_inner_greedy)

lemma cp_worker_step_frame:
  assumes "cp_worker_step rt now dt t sd tp w st = Inr st'" and "k \<noteq> cp_worker_ctx st"
  shows "cp_entry st' k m = cp_entry st k m"
  using cp_worker_step_cases [OF assms(1)] assms(2)
  by (auto dest!: cp_inner_frame [where k = k and m = m])

lemma cp_outer_worker_ctx:
  "efold (cp_worker_step rt now dt t sd tp) ws st = Inr st' \<Longrightarrow>
     cp_worker_ctx st' = cp_worker_ctx st + nb_exec rt t ws"
proof (induction ws arbitrary: st)
  case Nil
  then show ?case by (simp add: nb_exec_def)
next
  case (Cons w ws)
  from efold_Inr_Cons [OF Cons.prems] obtain s1 where
    a: "cp_worker_step rt now dt t sd tp w st = Inr s1" and
    b: "efold (cp_worker_step rt now dt t sd tp) ws s1 = Inr st'" by blast
  from Cons.IH [OF b] cp_worker_step_worker_ctx [OF a] show ?case
    by (simp add: nb_exec_def)
qed

lemma cp_outer_unknown:
  "efold (cp_worker_step rt now dt t sd tp) ws st = Inr st' \<Longrightarrow>
     cp_unknown st' =
       (cp_unknown st \<or> (\<exists>w n. eligible (rt\<lparr>workers := ws\<rparr>) t w n \<and>
                               no_prediction (cand_length rt t w n)))"
proof (induction ws arbitrary: st)
  case Nil
  then show ?case by (simp add: eligible_def)
next
  case (Cons w ws)
  from efold_Inr_Cons [OF Cons.prems] obtain s1 where
    a: "cp_worker_step rt now dt t sd tp w st = Inr s1" and
    b: "efold (cp_worker_step rt now dt t sd tp) ws s1 = Inr st'" by blast
  show ?case
    unfolding Cons.IH [OF b] cp_worker_step_unknown [OF a]
    by (auto simp: eligible_def)
qed

lemma cp_outer_greedy:
  "efold (cp_worker_step rt now dt t sd tp) ws st = Inr st' \<Longrightarrow>
     cp_unknown st \<longrightarrow> cp_ntasks_best st \<noteq> -1 \<Longrightarrow>
     cp_unknown st' \<longrightarrow> cp_ntasks_best st' \<noteq> -1"
proof (induction ws arbitrary: st)
  case Nil
  then show ?case by simp
next
  case (Cons w ws)
  from efold_Inr_Cons [OF Cons.prems(1)] obtain s1 where
    a: "cp_worker_step rt now dt t sd tp w st = Inr s1" and
    b: "efold (cp_worker_step rt now dt t sd tp) ws s1 = Inr st'" by blast
  from Cons.IH [OF b cp_worker_step_greedy [OF a Cons.prems(2)]] show ?case .
qed

lemma cp_outer_frame:
  "efold (cp_worker_step rt now dt t sd tp) ws st = Inr st' \<Longrightarrow>
     k < cp_worker_ctx st \<Longrightarrow> cp_entry st' k m = cp_entry st k m"
proof (induction ws arbitrary: st)
  case Nil
  then show ?case by simp
next
  case (Cons w ws)
  from efold_Inr_Cons [OF Cons.prems(1)] obtain s1 where
    a: "cp_worker_step rt now dt t sd tp w st = Inr s1" and
    b: "efold (cp_worker_step rt now dt t sd tp) ws s1 = Inr st'" by blast
  have "k < cp_worker_ctx s1"
    using cp_worker_step_worker_ctx [OF a] Cons.prems(2) by simp
  from Cons.IH [OF b this] cp_worker_step_frame [OF a, of k m] Cons.prems(2)
  show ?case by simp
qed

lemma cp_compute_unknown:
  assumes "compute_all_performance_predictions rt now dt t g c sd = Inr cp"
  shows "cp_unknown cp =
           (\<exists>w n. eligible rt t w n \<and> no_prediction (cand_length rt t w n))"
    and "cp_unknown cp \<longrightarrow> cp_ntasks_best cp \<noteq> -1"
proof -
  from ebind_Inr [OF assms [unfolded compute_all_performance_predictions_def]]
  obtain tp where
    e: "efold (cp_worker_step rt now dt t sd tp) (workers rt) (cp_init g) = Inr cp" by blast
  have "eligible (rt\<lparr>workers := workers rt\<rparr>) t = eligible rt t"
    by (simp add: eligible_def fun_eq_iff)
  with cp_outer_unknown [OF e]
  show "cp_unknown cp = (\<exists>w n. eligible rt t w n \<and> no_prediction (cand_length rt t w n))"
    by (simp add: cp_init_def)
  from cp_outer_greedy [OF e] show "cp_unknown cp \<longrightarrow> cp_ntasks_best cp \<noteq> -1"
    by (simp add: cp_init_def)
qed

lemma dmda_decide_cases:
  assumes "dmda_decide rt now dt t g c sd = Inr d"
  shows "\<exists>cp. compute_all_performance_predictions rt now dt t g c sd = Inr cp \<and>
           predictions d = cp \<and>
           ((cp_unknown cp \<and> fitnesses d = fit_init g \<and>
             dec_best d = cp_ntasks_best cp \<and> dec_best d \<noteq> -1 \<and>
             dec_best_in_ctx d = -1 \<and> dec_selected_impl d = cp_nimpl_best cp \<and>
             dec_model_best d = Fin 0 \<and> dec_transfer_model_best d = Fin 0) \<or>
            (\<not> cp_unknown cp \<and>
             efold (fit_worker_step rt dt t cp) (workers rt) (fit_init g) = Inr (fitnesses d) \<and>
             dec_best d = ft_best (fitnesses d) \<and> dec_best d \<noteq> -1 \<and>
             dec_best_in_ctx d = ft_best_in_ctx (fitnesses d) \<and>
             dec_selected_impl d = ft_selected_impl (fitnesses d)))"
proof -
  from ebind_Inr [OF assms [unfolded dmda_decide_def]] obtain cp where
    cp: "compute_all_performance_predictions rt now dt t g c sd = Inr cp" and
    k: "(let forced_best = forced_worker cp
          in ebind (if forced_best = -1
                    then efold (fit_worker_step rt dt t cp) (workers rt) (fit_init g)
                    else Inr (fit_init g))
               (\<lambda>ft.
                  if \<not> (forced_best \<noteq> -1 \<or> ft_best ft \<noteq> -1) then Inl AssertFailed
                  else if forced_best \<noteq> -1
                  then Inr \<lparr>dec_best = forced_best, dec_best_in_ctx = ft_best_in_ctx ft,
                            dec_selected_impl = forced_impl cp, dec_model_best = Fin 0,
                            dec_transfer_model_best = Fin 0, predictions = cp, fitnesses = ft\<rparr>
                  else if has_bundle t
                  then Inr \<lparr>dec_best = ft_best ft, dec_best_in_ctx = ft_best_in_ctx ft,
                            dec_selected_impl = ft_selected_impl ft,
                            dec_model_best = expected_length rt t
                              (perf_archtype rt (nat (ft_best_in_ctx ft)))
                              (nat (ft_selected_impl ft)),
                            dec_transfer_model_best = expected_data_transfer_time rt
                              (memory_node rt (nat (ft_best ft))) t,
                            predictions = cp, fitnesses = ft\<rparr>
                  else Inr \<lparr>dec_best = ft_best ft, dec_best_in_ctx = ft_best_in_ctx ft,
                            dec_selected_impl = ft_selected_impl ft,
                            dec_model_best = local_task_length cp (nat (ft_best_in_ctx ft))
                                           (nat (ft_selected_impl ft)),
                            dec_transfer_model_best = local_data_penalty cp
                                           (nat (ft_best_in_ctx ft)) (nat (ft_selected_impl ft)),
                            predictions = cp, fitnesses = ft\<rparr>)) = Inr d"
    by blast
  note g = cp_compute_unknown(2) [OF cp]
  show ?thesis
  proof (cases "cp_unknown cp")
    case True
    with g have f: "forced_worker cp \<noteq> -1" "forced_worker cp = cp_ntasks_best cp"
      "forced_impl cp = cp_nimpl_best cp"
      by (simp_all add: forced_worker_def forced_impl_def)
    from k f True cp show ?thesis
      by (auto simp: Let_def ebind_def fit_init_def)
  next
    case False
    then have f: "forced_worker cp = -1" by (simp add: forced_worker_def)
    from k f have k': "ebind (efold (fit_worker_step rt dt t cp) (workers rt) (fit_init g))
               (\<lambda>ft.
                  if ft_best ft = -1 then Inl AssertFailed
                  else if has_bundle t
                  then Inr \<lparr>dec_best = ft_best ft, dec_best_in_ctx = ft_best_in_ctx ft,
                            dec_selected_impl = ft_selected_impl ft,
                            dec_model_best = expected_length rt t
                              (perf_archtype rt (nat (ft_best_in_ctx ft)))
                              (nat (ft_selected_impl ft)),
                            dec_transfer_model_best = expected_data_transfer_time rt
                              (memory_node rt (nat (ft_best ft))) t,
                            predictions = cp, fitnesses = ft\<rparr>
                  else Inr \<lparr>dec_best = ft_best ft, dec_best_in_ctx = ft_best_in_ctx ft,
                            dec_selected_impl = ft_selected_impl ft,
                            dec_model_best = local_task_length cp (nat (ft_best_in_ctx ft))
                                           (nat (ft_selected_impl ft)),
                            dec_transfer_model_best = local_data_penalty cp
                                           (nat (ft_best_in_ctx ft)) (nat (ft_selected_impl ft)),
                            predictions = cp, fitnesses = ft\<rparr>) = Inr d"
      by (simp add: Let_def cong: if_cong)
    from ebind_Inr [OF k'] False cp show ?thesis
      by (auto split: if_splits)
  qed
qed

lemma dm_scan_S3: "\<exists>st. dm_scan rt_S3 10 dt_S1 task_T = Inr st"
  by (simp add: dm_scan_def dm_worker_step_def rt_S3_def rt_S1_def dt_S1_def mk_fifo_def)

lemma eligible_S3: "eligible rt_S3 task_T 0 0 \<and> no_prediction (expected_length rt_S3 task_T (perf_archtype rt_S3 0) 0)
   \<and> no_prediction (cand_length rt_S3 task_T 0 0)"
  by (simp add: eligible_def rt_S3_def rt_S1_def no_prediction_def cand_length_def task_T_def mk_task_def Let_def dgt_def)

lemma cp_S3: "\<exists>cp. compute_all_performance_predictions rt_S3 10 dt_S1 task_T (\<lambda>_ _. NaN) 0 False = Inr cp"
  using DBL_MIN_bounds
  by (simp add: compute_all_performance_predictions_def ebind_def cp_worker_step_def
        rt_S3_def rt_S1_def dt_S1_def mk_fifo_def upt4 cp_impl_step_def cand_prev_def Let_def
        decision_task_prio_def
        cp_init_def current_exp_start_def STARPU_MAX_def bit_1_iff cp_candidate_worker_ctx)

lemma dmda_decide_S3:
  "\<exists>d. dmda_decide rt_S3 10 dt_S1 task_T (\<lambda>_ _. NaN) 0 False = Inr d"
proof -
  from cp_S3 obtain cp where
    cp: "compute_all_performance_predictions rt_S3 10 dt_S1 task_T (\<lambda>_ _. NaN) 0 False = Inr cp"
    by blast
  from cp_compute_unknown [OF cp] eligible_S3 have "cp_unknown cp" "cp_ntasks_best cp \<noteq> -1"
    by blast+
  then have "forced_worker cp \<noteq> -1" by (simp add: forced_worker_def)
  with cp show ?thesis by (simp add: dmda_decide_def ebind_def Let_def)
qed

lemma dm_one: "dm_scan rt_one 10 dt_S1 task_T = Inr dm_one_result"
  by (simp add: dm_one_result_def dm_scan_def dm_worker_step_def rt_one_def rt_S1_def dt_S1_def mk_fifo_def
        upt4 dm_impl_step_def Let_def dm_init_def current_exp_start_def STARPU_MAX_def
        bit_1_iff greedy_takes_def STARPU_IS_ZERO_def)

text \<open>
  C3 (as amended). In \<^verbatim>\<open>_dm_push_task\<close> and in \<^verbatim>\<open>_dmda_push_task\<close> the flag \<^verbatim>\<open>unknown\<close> is
  set exactly when some eligible (worker, implementation) candidate has a NaN or zero
  predicted length. When it is set, the decision is reached, the worker passed to the
  commit is the greedy candidate \<^verbatim>\<open>ntasks_best\<close> (a worker, not -1), and the committed
  \<^verbatim>\<open>model_best\<close> and \<^verbatim>\<open>transfer_model_best\<close> are both zero. Nothing is said of the
  converse: the worker passed to the commit can be the greedy candidate when the flag
  is not set.
\<close>

theorem greedy_fallback_when_unknown:
  "(\<forall>st. dm_scan rt now dt t = Inr st \<longrightarrow>
      (dm_unknown st \<longleftrightarrow>
         (\<exists>w n. eligible rt t w n \<and>
                no_prediction (expected_length rt t (perf_archtype rt w) n))) \<and>
      (\<exists>d. dm_decide rt now dt t = Inr d \<and>
           (dm_unknown st \<longrightarrow>
              dm_best d = dm_ntasks_best st \<and> dm_ntasks_best st \<noteq> -1 \<and>
              dm_model_best d = Fin 0 \<and> dm_transfer_model_best d = Fin 0))) \<and>
   (\<forall>d. dmda_decide rt now dt t g c sd = Inr d \<longrightarrow>
      (cp_unknown (predictions d) \<longleftrightarrow>
         (\<exists>w n. eligible rt t w n \<and> no_prediction (cand_length rt t w n))) \<and>
      (cp_unknown (predictions d) \<longrightarrow>
         dec_best d = cp_ntasks_best (predictions d) \<and> dec_best d \<noteq> -1 \<and>
         dec_model_best d = Fin 0 \<and> dec_transfer_model_best d = Fin 0))"
proof (intro conjI allI impI)
  fix st assume s: "dm_scan rt now dt t = Inr st"
  show "dm_unknown st \<longleftrightarrow>
         (\<exists>w n. eligible rt t w n \<and>
                no_prediction (expected_length rt t (perf_archtype rt w) n))"
    by (rule dm_scan_unknown [OF s])
  show "\<exists>d. dm_decide rt now dt t = Inr d \<and>
           (dm_unknown st \<longrightarrow>
              dm_best d = dm_ntasks_best st \<and> dm_ntasks_best st \<noteq> -1 \<and>
              dm_model_best d = Fin 0 \<and> dm_transfer_model_best d = Fin 0)"
    using s dm_scan_greedy [OF s] by (simp add: dm_decide_def ebind_def)
next
  fix d assume d: "dmda_decide rt now dt t g c sd = Inr d"
  from dmda_decide_cases [OF d] obtain cp where
    cp: "compute_all_performance_predictions rt now dt t g c sd = Inr cp" and
    p: "predictions d = cp" and
    cs: "(cp_unknown cp \<and> fitnesses d = fit_init g \<and>
             dec_best d = cp_ntasks_best cp \<and> dec_best d \<noteq> -1 \<and>
             dec_best_in_ctx d = -1 \<and> dec_selected_impl d = cp_nimpl_best cp \<and>
             dec_model_best d = Fin 0 \<and> dec_transfer_model_best d = Fin 0) \<or>
            (\<not> cp_unknown cp \<and>
             efold (fit_worker_step rt dt t cp) (workers rt) (fit_init g) = Inr (fitnesses d) \<and>
             dec_best d = ft_best (fitnesses d) \<and> dec_best d \<noteq> -1 \<and>
             dec_best_in_ctx d = ft_best_in_ctx (fitnesses d) \<and>
             dec_selected_impl d = ft_selected_impl (fitnesses d))"
    by blast
  show "cp_unknown (predictions d) \<longleftrightarrow>
         (\<exists>w n. eligible rt t w n \<and> no_prediction (cand_length rt t w n))"
    using cp_compute_unknown(1) [OF cp] p by simp
  {
    assume "cp_unknown (predictions d)"
    with cs p show "dec_best d = cp_ntasks_best (predictions d)" "dec_best d \<noteq> -1"
      "dec_model_best d = Fin 0" "dec_transfer_model_best d = Fin 0" by auto
  }
qed

theorem greedy_fallback_when_unknown_witness:
  "(\<exists>st d. dm_scan rt_S3 10 dt_S1 task_T = Inr st \<and> dm_decide rt_S3 10 dt_S1 task_T = Inr d \<and>
           dm_unknown st \<and> dm_best d = dm_ntasks_best st \<and> dm_ntasks_best st \<noteq> -1 \<and>
           dm_model_best d = Fin 0 \<and> dm_transfer_model_best d = Fin 0) \<and>
   (\<exists>d. dmda_decide rt_S3 10 dt_S1 task_T (\<lambda>_ _. NaN) 0 False = Inr d \<and>
        cp_unknown (predictions d) \<and> dec_best d = cp_ntasks_best (predictions d) \<and>
        dec_best d \<noteq> -1 \<and> dec_model_best d = Fin 0 \<and> dec_transfer_model_best d = Fin 0)"
proof -
  note T = greedy_fallback_when_unknown [where rt = rt_S3 and now = 10 and dt = dt_S1
      and t = task_T and g = "\<lambda>_ _. NaN" and c = 0 and sd = False]
  from dm_scan_S3 obtain st where st: "dm_scan rt_S3 10 dt_S1 task_T = Inr st" by blast
  note T1 = T [THEN conjunct1, rule_format, OF st]
  from T1 [THEN conjunct1] eligible_S3 have u: "dm_unknown st" by blast
  from T1 [THEN conjunct2] obtain d where
    d: "dm_decide rt_S3 10 dt_S1 task_T = Inr d" and
    i: "dm_unknown st \<longrightarrow>
              dm_best d = dm_ntasks_best st \<and> dm_ntasks_best st \<noteq> -1 \<and>
              dm_model_best d = Fin 0 \<and> dm_transfer_model_best d = Fin 0"
    by blast
  from st d u i have one: "\<exists>st d. dm_scan rt_S3 10 dt_S1 task_T = Inr st \<and>
           dm_decide rt_S3 10 dt_S1 task_T = Inr d \<and>
           dm_unknown st \<and> dm_best d = dm_ntasks_best st \<and> dm_ntasks_best st \<noteq> -1 \<and>
           dm_model_best d = Fin 0 \<and> dm_transfer_model_best d = Fin 0"
    by blast
  from dmda_decide_S3 obtain e where
    e: "dmda_decide rt_S3 10 dt_S1 task_T (\<lambda>_ _. NaN) 0 False = Inr e" by blast
  note T2 = T [THEN conjunct2, rule_format, OF e]
  from T2 [THEN conjunct1] eligible_S3 have v: "cp_unknown (predictions e)" by blast
  from T2 [THEN conjunct2] v e
  have two: "\<exists>d. dmda_decide rt_S3 10 dt_S1 task_T (\<lambda>_ _. NaN) 0 False = Inr d \<and>
        cp_unknown (predictions d) \<and> dec_best d = cp_ntasks_best (predictions d) \<and>
        dec_best d \<noteq> -1 \<and> dec_model_best d = Fin 0 \<and> dec_transfer_model_best d = Fin 0"
    by blast
  from one two show ?thesis by (rule conjI)
qed

text \<open>
  C3 as stated is an equivalence. On the machine with the single worker 0, whose model
  gives the task a length of 100, no candidate is unknown, and the committed worker is
  worker 0, which is also the greedy candidate: the committed worker being the greedy
  candidate does not make a candidate unknown.
\<close>

theorem committed_worker_is_greedy_without_unknown:
  "dm_decide rt_one 10 dt_S1 task_T = Inr dm_one_result \<and>
   dm_best dm_one_result = dm_ntasks_best dm_one_result \<and>
   \<not> dm_unknown dm_one_result \<and>
   workers rt_one = [0] \<and> maximpl rt_one = 4 \<and>
   snd (can_execute_task_impl rt_one 0 task_T) = 1 \<and>
   \<not> no_prediction (expected_length rt_one task_T (perf_archtype rt_one 0) 0)"
  using dm_one
  by (simp add: dm_decide_def ebind_def dm_one_result_def rt_one_def rt_S1_def
        no_prediction_def STARPU_IS_ZERO_def)

subsection \<open>The fitness of the dmda candidates\<close>

lemma cp_outer_entry:
  "efold (cp_worker_step rt now dt t sd tp) ws st = Inr st' \<Longrightarrow>
     \<not> cp_unknown st' \<Longrightarrow>
     (w, k, n) \<in> set (candidates_from rt t (cp_worker_ctx st) ws) \<Longrightarrow>
     k < nworkers rt \<and> n < maximpl rt \<and>
     (\<exists>fifo prev fn. queue_array dt w = Some fifo \<and>
        cand_prev rt dt t sd tp w fifo n = Inr (prev, fn) \<and>
        cp_entry st' k n = cand_entry rt t w n (current_exp_start now fifo) prev)"
proof (induction ws arbitrary: st)
  case Nil
  then show ?case by simp
next
  case (Cons w0 ws)
  from efold_Inr_Cons [OF Cons.prems(1)] obtain s1 where
    a: "cp_worker_step rt now dt t sd tp w0 st = Inr s1" and
    b: "efold (cp_worker_step rt now dt t sd tp) ws s1 = Inr st'" by blast
  from cp_worker_step_cases [OF a] obtain fifo where
    q: "queue_array dt w0 = Some fifo" and
    cs: "(\<not> fst (can_execute_task_impl rt w0 t) \<and> s1 = st) \<or>
            (fst (can_execute_task_impl rt w0 t) \<and>
             (\<exists>s0. efold (cp_impl_step rt dt t sd tp w0 fifo (current_exp_start now fifo)
                            (snd (can_execute_task_impl rt w0 t))) [0..<maximpl rt] st = Inr s0 \<and>
                   s1 = s0\<lparr>cp_worker_ctx := cp_worker_ctx s0 + 1\<rparr>))"
    by blast
  show ?case
  proof (cases "fst (can_execute_task_impl rt w0 t)")
    case False
    with cs have "s1 = st" by simp
    with Cons.IH [OF b Cons.prems(2)] Cons.prems(3) False show ?thesis by simp
  next
    case True
    with cs obtain s0 where
      i: "efold (cp_impl_step rt dt t sd tp w0 fifo (current_exp_start now fifo)
                            (snd (can_execute_task_impl rt w0 t))) [0..<maximpl rt] st = Inr s0"
      and s1: "s1 = s0\<lparr>cp_worker_ctx := cp_worker_ctx s0 + 1\<rparr>" by blast
    have w0: "cp_worker_ctx s0 = cp_worker_ctx st" by (rule cp_inner_worker_ctx [OF i])
    then have w1: "cp_worker_ctx s1 = cp_worker_ctx st + 1" using s1 by simp
    from Cons.prems(3) True
    consider (here) "w = w0" "k = cp_worker_ctx st" "n < maximpl rt"
        "bit (snd (can_execute_task_impl rt w0 t)) n"
      | (later) "(w, k, n) \<in> set (candidates_from rt t (cp_worker_ctx st + 1) ws)"
      by auto
    then show ?thesis
    proof cases
      case here
      have nu1: "\<not> cp_unknown s1" using cp_outer_unknown [OF b] Cons.prems(2) by simp
      then have nu0: "\<not> cp_unknown s0" using s1 by simp
      have "n \<in> set [0..<maximpl rt]" using here(3) by simp
      from cp_inner_entry [OF i nu0 _ this here(4)] obtain prev fn where
        p: "cand_prev rt dt t sd tp w0 fifo n = Inr (prev, fn)" and
        e: "cp_entry s0 (cp_worker_ctx st) n
              = cand_entry rt t w0 n (current_exp_start now fifo) prev"
        by auto
      have "\<exists>n\<in>set [0..<maximpl rt]. bit (snd (can_execute_task_impl rt w0 t)) n"
        using here(3,4) by (intro bexI [of _ n]) simp_all
      then have bd: "cp_worker_ctx st < nworkers rt"
        by (rule cp_inner_bound [OF i])
      have "cp_entry st' k n = cp_entry s1 k n"
        using cp_outer_frame [OF b, of k n] here(2) w1 by simp
      also have "\<dots> = cp_entry s0 k n" using s1 by simp
      finally show ?thesis using e p q here bd by simp
    next
      case later
      with Cons.IH [OF b Cons.prems(2)] w1 show ?thesis by simp
    qed
  qed
qed

lemma fit_candidate_facts:
  "ft_worker_ctx (fit_candidate dt cp w n st) = ft_worker_ctx st"
  "ft_best (fit_candidate dt cp w n st) \<noteq> -1"
  "fitness (fit_candidate dt cp w n st) k m =
     (if k = ft_worker_ctx st \<and> m = n then fitness_of dt cp k m else fitness st k m)"
  by (simp_all add: fit_candidate_def Let_def upd2_def)

lemma fit_candidate_selected:
  "selected_from X st \<Longrightarrow> (w, ft_worker_ctx st, n) \<in> X \<Longrightarrow>
     selected_from X (fit_candidate dt cp w n st)"
  by (auto simp: selected_from_def fit_candidate_def Let_def)

lemma selected_from_mono: "selected_from X st \<Longrightarrow> X \<subseteq> Y \<Longrightarrow> selected_from Y st"
  by (auto simp: selected_from_def)

lemma fit_impl_step_cases:
  assumes "fit_impl_step rt dt cp w msk n st = Inr st'"
  shows "(\<not> bit msk n \<and> st' = st) \<or>
         (bit msk n \<and> ft_worker_ctx st < nworkers rt \<and> st' = fit_candidate dt cp w n st)"
  using assms by (auto simp: fit_impl_step_def split: if_splits)

lemma fit_inner:
  "efold (fit_impl_step rt dt cp w msk) ns st = Inr st' \<Longrightarrow>
     ft_worker_ctx st' = ft_worker_ctx st \<and>
     (ft_best st \<noteq> -1 \<longrightarrow> ft_best st' \<noteq> -1) \<and>
     ((\<exists>n\<in>set ns. bit msk n) \<longrightarrow> ft_worker_ctx st < nworkers rt \<and> ft_best st' \<noteq> -1) \<and>
     (\<forall>k m. (\<forall>n\<in>set ns. (k, m) \<noteq> (ft_worker_ctx st, n)) \<longrightarrow> fitness st' k m = fitness st k m)"
proof (induction ns arbitrary: st)
  case Nil
  then show ?case by simp
next
  case (Cons n ns)
  from efold_Inr_Cons [OF Cons.prems] obtain s1 where
    a: "fit_impl_step rt dt cp w msk n st = Inr s1" and
    b: "efold (fit_impl_step rt dt cp w msk) ns s1 = Inr st'" by blast
  note ih = Cons.IH [OF b]
  from fit_impl_step_cases [OF a] show ?case
  proof
    assume "\<not> bit msk n \<and> s1 = st"
    with ih show ?thesis by auto
  next
    assume c: "bit msk n \<and> ft_worker_ctx st < nworkers rt \<and> s1 = fit_candidate dt cp w n st"
    then have w1: "ft_worker_ctx s1 = ft_worker_ctx st" and b1: "ft_best s1 \<noteq> -1"
      by (simp_all add: fit_candidate_facts)
    have fr: "fitness s1 k m = fitness st k m" if "(k, m) \<noteq> (ft_worker_ctx st, n)" for k m
      using that c by (auto simp: fit_candidate_facts)
    from ih w1 b1 c fr show ?thesis by auto
  qed
qed

lemma fit_inner_entry:
  "efold (fit_impl_step rt dt cp w msk) ns st = Inr st' \<Longrightarrow>
     distinct ns \<Longrightarrow> n \<in> set ns \<Longrightarrow> bit msk n \<Longrightarrow>
     fitness st' (ft_worker_ctx st) n = fitness_of dt cp (ft_worker_ctx st) n"
proof (induction ns arbitrary: st)
  case Nil
  then show ?case by simp
next
  case (Cons n0 ns)
  from efold_Inr_Cons [OF Cons.prems(1)] obtain s1 where
    a: "fit_impl_step rt dt cp w msk n0 st = Inr s1" and
    b: "efold (fit_impl_step rt dt cp w msk) ns s1 = Inr st'" by blast
  have w1: "ft_worker_ctx s1 = ft_worker_ctx st"
    using fit_impl_step_cases [OF a] by (auto simp: fit_candidate_facts)
  show ?case
  proof (cases "n = n0")
    case True
    with fit_impl_step_cases [OF a] Cons.prems(4)
    have s1: "s1 = fit_candidate dt cp w n st" by simp
    have "\<forall>n'\<in>set ns. (ft_worker_ctx st, n) \<noteq> (ft_worker_ctx s1, n')"
      using True Cons.prems(2) by auto
    with fit_inner [OF b] have "fitness st' (ft_worker_ctx st) n = fitness s1 (ft_worker_ctx st) n"
      by blast
    then show ?thesis using s1 by (simp add: fit_candidate_facts)
  next
    case False
    with Cons.prems(2,3) have "distinct ns" "n \<in> set ns" by auto
    from Cons.IH [OF b this Cons.prems(4)] w1 show ?thesis by simp
  qed
qed

lemma fit_inner_selected:
  "efold (fit_impl_step rt dt cp w msk) ns st = Inr st' \<Longrightarrow>
     selected_from X st \<Longrightarrow>
     \<forall>n\<in>set ns. bit msk n \<longrightarrow> (w, ft_worker_ctx st, n) \<in> X \<Longrightarrow>
     selected_from X st'"
proof (induction ns arbitrary: st)
  case Nil
  then show ?case by simp
next
  case (Cons n ns)
  from efold_Inr_Cons [OF Cons.prems(1)] obtain s1 where
    a: "fit_impl_step rt dt cp w msk n st = Inr s1" and
    b: "efold (fit_impl_step rt dt cp w msk) ns s1 = Inr st'" by blast
  have w1: "ft_worker_ctx s1 = ft_worker_ctx st"
    using fit_impl_step_cases [OF a] by (auto simp: fit_candidate_facts)
  have "selected_from X s1"
    using fit_impl_step_cases [OF a] Cons.prems(2,3)
    by (auto intro: fit_candidate_selected)
  from Cons.IH [OF b this] Cons.prems(3) w1 show ?case by simp
qed

lemma fit_worker_step_cases:
  assumes "fit_worker_step rt dt t cp w st = Inr st'"
  shows "(\<not> fst (can_execute_task_impl rt w t) \<and> st' = st) \<or>
         (fst (can_execute_task_impl rt w t) \<and>
          (\<exists>s0. efold (fit_impl_step rt dt cp w (snd (can_execute_task_impl rt w t)))
                   [0..<maximpl rt] st = Inr s0 \<and>
                st' = s0\<lparr>ft_worker_ctx := ft_worker_ctx s0 + 1\<rparr>))"
proof (cases "fst (can_execute_task_impl rt w t)")
  case False
  with assms show ?thesis by (simp add: fit_worker_step_def Let_def)
next
  case True
  with assms have "ebind (efold (fit_impl_step rt dt cp w (snd (can_execute_task_impl rt w t)))
                            [0..<maximpl rt] st)
                (\<lambda>st'. Inr (st'\<lparr>ft_worker_ctx := ft_worker_ctx st' + 1\<rparr>)) = Inr st'"
    by (simp add: fit_worker_step_def Let_def)
  from ebind_Inr [OF this] True show ?thesis by auto
qed

lemma selected_from_worker_ctx_update [simp]:
  "selected_from X (st\<lparr>ft_worker_ctx := x\<rparr>) = selected_from X st"
  by (simp add: selected_from_def)

lemma fit_outer_frame:
  "efold (fit_worker_step rt dt t cp) ws st = Inr st' \<Longrightarrow>
     ft_worker_ctx st \<le> ft_worker_ctx st' \<and>
     (ft_best st \<noteq> -1 \<longrightarrow> ft_best st' \<noteq> -1) \<and>
     (\<forall>k m. k < ft_worker_ctx st \<longrightarrow> fitness st' k m = fitness st k m)"
proof (induction ws arbitrary: st)
  case Nil
  then show ?case by simp
next
  case (Cons w0 ws)
  from efold_Inr_Cons [OF Cons.prems] obtain s1 where
    a: "fit_worker_step rt dt t cp w0 st = Inr s1" and
    b: "efold (fit_worker_step rt dt t cp) ws s1 = Inr st'" by blast
  note ih = Cons.IH [OF b]
  from fit_worker_step_cases [OF a] show ?case
  proof
    assume "\<not> fst (can_execute_task_impl rt w0 t) \<and> s1 = st"
    with ih show ?thesis by simp
  next
    assume "fst (can_execute_task_impl rt w0 t) \<and>
          (\<exists>s0. efold (fit_impl_step rt dt cp w0 (snd (can_execute_task_impl rt w0 t)))
                   [0..<maximpl rt] st = Inr s0 \<and>
                s1 = s0\<lparr>ft_worker_ctx := ft_worker_ctx s0 + 1\<rparr>)"
    then obtain s0 where
      i: "efold (fit_impl_step rt dt cp w0 (snd (can_execute_task_impl rt w0 t)))
                   [0..<maximpl rt] st = Inr s0" and
      s1: "s1 = s0\<lparr>ft_worker_ctx := ft_worker_ctx s0 + 1\<rparr>" by blast
    note fi = fit_inner [OF i]
    from fi s1 have w1: "ft_worker_ctx s1 = ft_worker_ctx st + 1" by simp
    have fr: "fitness s1 k m = fitness st k m" if "k < ft_worker_ctx st" for k m
      using fi s1 that by auto
    from ih w1 fr fi s1 show ?thesis by auto
  qed
qed

lemma fit_outer_entry:
  "efold (fit_worker_step rt dt t cp) ws st = Inr st' \<Longrightarrow>
     (w, k, n) \<in> set (candidates_from rt t (ft_worker_ctx st) ws) \<Longrightarrow>
     fitness st' k n = fitness_of dt cp k n \<and> ft_best st' \<noteq> -1"
proof (induction ws arbitrary: st)
  case Nil
  then show ?case by simp
next
  case (Cons w0 ws)
  from efold_Inr_Cons [OF Cons.prems(1)] obtain s1 where
    a: "fit_worker_step rt dt t cp w0 st = Inr s1" and
    b: "efold (fit_worker_step rt dt t cp) ws s1 = Inr st'" by blast
  show ?case
  proof (cases "fst (can_execute_task_impl rt w0 t)")
    case False
    with fit_worker_step_cases [OF a] have "s1 = st" by simp
    with Cons.IH [OF b] Cons.prems(2) False show ?thesis by simp
  next
    case True
    with fit_worker_step_cases [OF a] obtain s0 where
      i: "efold (fit_impl_step rt dt cp w0 (snd (can_execute_task_impl rt w0 t)))
                   [0..<maximpl rt] st = Inr s0" and
      s1: "s1 = s0\<lparr>ft_worker_ctx := ft_worker_ctx s0 + 1\<rparr>" by blast
    note fi = fit_inner [OF i]
    from fi s1 have w1: "ft_worker_ctx s1 = ft_worker_ctx st + 1" by simp
    from Cons.prems(2) True
    consider (here) "w = w0" "k = ft_worker_ctx st" "n < maximpl rt"
        "bit (snd (can_execute_task_impl rt w0 t)) n"
      | (later) "(w, k, n) \<in> set (candidates_from rt t (ft_worker_ctx st + 1) ws)"
      by auto
    then show ?thesis
    proof cases
      case here
      have m: "n \<in> set [0..<maximpl rt]" using here(3) by simp
      from fit_inner_entry [OF i _ m here(4)]
      have e: "fitness s0 (ft_worker_ctx st) n = fitness_of dt cp (ft_worker_ctx st) n" by simp
      have "\<exists>n\<in>set [0..<maximpl rt]. bit (snd (can_execute_task_impl rt w0 t)) n"
        using m here(4) by blast
      with fi have nb: "ft_best s0 \<noteq> -1" by blast
      note fo = fit_outer_frame [OF b]
      from fo w1 here(2) have "fitness st' k n = fitness s1 k n" by simp
      moreover from fo nb s1 have "ft_best st' \<noteq> -1" by simp
      ultimately show ?thesis using e s1 here(2) by simp
    next
      case later
      with Cons.IH [OF b] w1 show ?thesis by simp
    qed
  qed
qed

lemma fit_outer_selected:
  "efold (fit_worker_step rt dt t cp) ws st = Inr st' \<Longrightarrow>
     selected_from X st \<Longrightarrow>
     set (candidates_from rt t (ft_worker_ctx st) ws) \<subseteq> X \<Longrightarrow>
     selected_from X st'"
proof (induction ws arbitrary: st)
  case Nil
  then show ?case by simp
next
  case (Cons w0 ws)
  from efold_Inr_Cons [OF Cons.prems(1)] obtain s1 where
    a: "fit_worker_step rt dt t cp w0 st = Inr s1" and
    b: "efold (fit_worker_step rt dt t cp) ws s1 = Inr st'" by blast
  show ?case
  proof (cases "fst (can_execute_task_impl rt w0 t)")
    case False
    with fit_worker_step_cases [OF a] have "s1 = st" by simp
    with Cons.IH [OF b] Cons.prems(2,3) False show ?thesis by simp
  next
    case True
    with fit_worker_step_cases [OF a] obtain s0 where
      i: "efold (fit_impl_step rt dt cp w0 (snd (can_execute_task_impl rt w0 t)))
                   [0..<maximpl rt] st = Inr s0" and
      s1: "s1 = s0\<lparr>ft_worker_ctx := ft_worker_ctx s0 + 1\<rparr>" by blast
    from fit_inner [OF i] s1 have w1: "ft_worker_ctx s1 = ft_worker_ctx st + 1" by simp
    have "\<forall>n\<in>set [0..<maximpl rt]. bit (snd (can_execute_task_impl rt w0 t)) n \<longrightarrow>
            (w0, ft_worker_ctx st, n) \<in> X"
      using Cons.prems(3) True by auto
    from fit_inner_selected [OF i Cons.prems(2) this] s1 have "selected_from X s1" by simp
    from Cons.IH [OF b this] Cons.prems(3) True w1 show ?thesis by simp
  qed
qed

lemma compute_all_entry:
  assumes "compute_all_performance_predictions rt now dt t g c sd = Inr cp"
    and "\<not> cp_unknown cp" and "(w, k, n) \<in> set (candidates rt t)"
  shows "k < nworkers rt \<and> n < maximpl rt \<and>
     (\<exists>tp fifo prev fn. decision_task_prio rt dt t c sd = Inr tp \<and>
        queue_array dt w = Some fifo \<and>
        cand_prev rt dt t sd tp w fifo n = Inr (prev, fn) \<and>
        cp_entry cp k n = cand_entry rt t w n (current_exp_start now fifo) prev)"
proof -
  from ebind_Inr [OF assms(1) [unfolded compute_all_performance_predictions_def]]
  obtain tp where tp: "decision_task_prio rt dt t c sd = Inr tp" and
    e: "efold (cp_worker_step rt now dt t sd tp) (workers rt) (cp_init g) = Inr cp" by blast
  have "(w, k, n) \<in> set (candidates_from rt t (cp_worker_ctx (cp_init g)) (workers rt))"
    using assms(3) by (simp add: candidates_def cp_init_def)
  from cp_outer_entry [OF e assms(2) this] tp show ?thesis by blast
qed

lemma candidates_S1: "candidates rt_S1 task_T = [(0, 0, 0), (1, 1, 0)]"
  by (simp add: candidates_def rt_S1_def upt4 bit_1_iff)

lemma no_bad_S1: "\<not> (\<exists>w n. eligible rt_S1 task_T w n \<and> no_prediction (cand_length rt_S1 task_T w n))"
  by (auto simp: eligible_def rt_S1_def no_prediction_def cand_length_def task_T_def mk_task_def
        Let_def dgt_def STARPU_IS_ZERO_def bit_1_iff)

lemma cp_S1: "\<exists>cp. compute_all_performance_predictions rt_S1 0 dt_S1 task_T (\<lambda>_ _. NaN) 0 False = Inr cp"
  using DBL_MIN_bounds
  by (simp add: compute_all_performance_predictions_def ebind_def cp_worker_step_def
        rt_S1_def dt_S1_def mk_fifo_def upt4 cp_impl_step_def cand_prev_def Let_def
        decision_task_prio_def
        cp_init_def current_exp_start_def STARPU_MAX_def bit_1_iff cp_candidate_worker_ctx)

lemma dmda_decide_S1:
  "\<exists>d. dmda_decide rt_S1 0 dt_S1 task_T (\<lambda>_ _. NaN) 0 False = Inr d"
proof -
  from cp_S1 obtain cp where
    cp: "compute_all_performance_predictions rt_S1 0 dt_S1 task_T (\<lambda>_ _. NaN) 0 False = Inr cp"
    by blast
  from cp_compute_unknown(1) [OF cp] no_bad_S1 have nu: "\<not> cp_unknown cp" by simp
  then have f: "forced_worker cp = -1" by (simp add: forced_worker_def)
  have "\<exists>ft. efold (fit_worker_step rt_S1 dt_S1 task_T cp) (workers rt_S1)
                (fit_init (\<lambda>_ _. NaN)) = Inr ft"
    by (simp add: fit_worker_step_def fit_impl_step_def rt_S1_def upt4 bit_1_iff ebind_def
          Let_def fit_init_def fit_candidate_facts)
  then obtain ft where
    ft: "efold (fit_worker_step rt_S1 dt_S1 task_T cp) (workers rt_S1)
           (fit_init (\<lambda>_ _. NaN)) = Inr ft" by blast
  have "(0, 0, 0) \<in> set (candidates_from rt_S1 task_T
           (ft_worker_ctx (fit_init (\<lambda>_ _. NaN))) (workers rt_S1))"
    using candidates_S1 by (simp add: candidates_def fit_init_def)
  from fit_outer_entry [OF ft this] have "ft_best ft \<noteq> -1" by simp
  with cp f ft show ?thesis
    by (simp add: dmda_decide_def ebind_def Let_def task_T_def mk_task_def)
qed

text \<open>
  C4. Let \<^verbatim>\<open>_dmda_push_task\<close> reach its decision with no candidate unknown, so that the
  fitness loop runs. For every candidate --- a worker \<open>w\<close> of the collection that can
  execute the task, its row \<open>k\<close> and an implementation \<open>n\<close> of its mask --- the entry
  \<^verbatim>\<open>fitness[k][n]\<close> is \<^verbatim>\<open>alpha*(exp_end - best_exp_end) + beta*data_penalty +
  gamma*energy\<close>, plus \<^verbatim>\<open>gamma*idle_power*(exp_end - max_exp_end)/1e6\<close> exactly when
  \<^verbatim>\<open>exp_end > max_exp_end\<close>; here \<^verbatim>\<open>exp_end\<close> is the candidate's start plus the
  horizon before it plus its predicted length, the penalty and the energy are the
  oracle's for this candidate, and the energy counts as 0 when the oracle returns NaN.
\<close>

theorem fitness_of_every_candidate:
  assumes "dmda_decide rt now dt t g c sd = Inr d"
    and "\<not> cp_unknown (predictions d)"
    and "(w, k, n) \<in> set (candidates rt t)"
  shows "\<exists>tp fifo prev fn.
           decision_task_prio rt dt t c sd = Inr tp \<and> queue_array dt w = Some fifo \<and>
           cand_prev rt dt t sd tp w fifo n = Inr (prev, fn) \<and>
           fitness (fitnesses d) k n =
             (let exp_end' = dadd (dadd (current_exp_start now fifo) prev) (cand_length rt t w n);
                  energy = (if isnan (cand_energy rt t w n) then Fin 0
                            else cand_energy rt t w n);
                  f0 = dadd (dadd (dmul (alpha dt)
                                     (dsub exp_end' (cp_best_exp_end (predictions d))))
                                  (dmul (beta dt) (cand_penalty rt t w)))
                            (dmul (gamma dt) energy)
              in if dgt exp_end' (cp_max_exp_end (predictions d))
                 then dadd f0 (ddiv (dmul (dmul (gamma dt) (idle_power dt))
                                       (dsub exp_end' (cp_max_exp_end (predictions d))))
                                 (Fin 1000000))
                 else f0)"
proof -
  from dmda_decide_cases [OF assms(1)] assms(2) have
    cp: "compute_all_performance_predictions rt now dt t g c sd = Inr (predictions d)" and
    ft: "efold (fit_worker_step rt dt t (predictions d)) (workers rt) (fit_init g)
           = Inr (fitnesses d)"
    by auto
  from compute_all_entry [OF cp assms(2,3)] obtain tp fifo prev fn where
    tp: "decision_task_prio rt dt t c sd = Inr tp" and q: "queue_array dt w = Some fifo" and
    p: "cand_prev rt dt t sd tp w fifo n = Inr (prev, fn)" and
    e: "cp_entry (predictions d) k n = cand_entry rt t w n (current_exp_start now fifo) prev"
    by blast
  have "(w, k, n) \<in> set (candidates_from rt t (ft_worker_ctx (fit_init g)) (workers rt))"
    using assms(3) by (simp add: candidates_def fit_init_def)
  from fit_outer_entry [OF ft this]
  have f: "fitness (fitnesses d) k n = fitness_of dt (predictions d) k n" by simp
  from e have
    "exp_end_arr (predictions d) k n
       = dadd (dadd (current_exp_start now fifo) prev) (cand_length rt t w n)"
    "local_data_penalty (predictions d) k n = cand_penalty rt t w"
    "local_energy (predictions d) k n
       = (if isnan (cand_energy rt t w n) then Fin 0 else cand_energy rt t w n)"
    by (simp_all add: cp_entry_def cand_entry_def)
  with f have "fitness (fitnesses d) k n =
             (let exp_end' = dadd (dadd (current_exp_start now fifo) prev) (cand_length rt t w n);
                  energy = (if isnan (cand_energy rt t w n) then Fin 0
                            else cand_energy rt t w n);
                  f0 = dadd (dadd (dmul (alpha dt)
                                     (dsub exp_end' (cp_best_exp_end (predictions d))))
                                  (dmul (beta dt) (cand_penalty rt t w)))
                            (dmul (gamma dt) energy)
              in if dgt exp_end' (cp_max_exp_end (predictions d))
                 then dadd f0 (ddiv (dmul (dmul (gamma dt) (idle_power dt))
                                       (dsub exp_end' (cp_max_exp_end (predictions d))))
                                 (Fin 1000000))
                 else f0)"
    by (simp add: fitness_of_def Let_def)
  with tp q p show ?thesis by blast
qed

theorem fitness_of_every_candidate_witness:
  "\<exists>d. dmda_decide rt_S1 0 dt_S1 task_T (\<lambda>_ _. NaN) 0 False = Inr d \<and>
        fitness (fitnesses d) 1 0 =
          (let f0 = dadd (dadd (dsub (Fin 20) (cp_best_exp_end (predictions d))) (Fin 5)) (Fin 0)
           in if dgt (Fin 20) (cp_max_exp_end (predictions d))
              then dadd f0 (ddiv (dmul (Fin 0) (dsub (Fin 20) (cp_max_exp_end (predictions d))))
                              (Fin 1000000))
              else f0)"
proof -
  from dmda_decide_S1 obtain d where
    d: "dmda_decide rt_S1 0 dt_S1 task_T (\<lambda>_ _. NaN) 0 False = Inr d" by blast
  from dmda_decide_cases [OF d] obtain cp where
    cp: "compute_all_performance_predictions rt_S1 0 dt_S1 task_T (\<lambda>_ _. NaN) 0 False = Inr cp"
    and p: "predictions d = cp" by blast
  from cp_compute_unknown(1) [OF cp] no_bad_S1 p have nu: "\<not> cp_unknown (predictions d)"
    by simp
  have c: "(1, 1, 0) \<in> set (candidates rt_S1 task_T)" by (simp add: candidates_S1)
  from fitness_of_every_candidate [OF d nu c] obtain tp fifo prev fn where
    tp: "decision_task_prio rt_S1 dt_S1 task_T 0 False = Inr tp" and
    q: "queue_array dt_S1 1 = Some fifo" and
    pv: "cand_prev rt_S1 dt_S1 task_T False tp 1 fifo 0 = Inr (prev, fn)" and
    f: "fitness (fitnesses d) 1 0 =
             (let exp_end' = dadd (dadd (current_exp_start 0 fifo) prev)
                               (cand_length rt_S1 task_T 1 0);
                  energy = (if isnan (cand_energy rt_S1 task_T 1 0) then Fin 0
                            else cand_energy rt_S1 task_T 1 0);
                  f0 = dadd (dadd (dmul (alpha dt_S1)
                                     (dsub exp_end' (cp_best_exp_end (predictions d))))
                                  (dmul (beta dt_S1) (cand_penalty rt_S1 task_T 1)))
                            (dmul (gamma dt_S1) energy)
              in if dgt exp_end' (cp_max_exp_end (predictions d))
                 then dadd f0 (ddiv (dmul (dmul (gamma dt_S1) (idle_power dt_S1))
                                       (dsub exp_end' (cp_max_exp_end (predictions d))))
                                 (Fin 1000000))
                 else f0)"
    by blast
  from q have fifo: "fifo = mk_fifo []" by (simp add: dt_S1_def)
  from pv fifo have prev: "prev = Fin 0" by (simp add: cand_prev_def mk_fifo_def)
  have l: "cand_length rt_S1 task_T 1 0 = Fin 20" "cand_energy rt_S1 task_T 1 0 = Fin 0"
    "cand_penalty rt_S1 task_T 1 = Fin 5" "current_exp_start 0 (mk_fifo []) = Fin 0"
    by (simp_all add: cand_length_def cand_energy_def cand_penalty_def rt_S1_def task_T_def
          mk_task_def Let_def dgt_def current_exp_start_def mk_fifo_def STARPU_MAX_def)
  have k: "alpha dt_S1 = Fin 1" "beta dt_S1 = Fin 1" "gamma dt_S1 = Fin 1000"
    "idle_power dt_S1 = Fin 0" by (simp_all add: dt_S1_def)
  have m: "dmul (Fin 1) x = x" for x by (cases x) simp_all
  from f [unfolded fifo prev l k] have "fitness (fitnesses d) 1 0 =
          (let f0 = dadd (dadd (dsub (Fin 20) (cp_best_exp_end (predictions d))) (Fin 5)) (Fin 0)
           in if dgt (Fin 20) (cp_max_exp_end (predictions d))
              then dadd f0 (ddiv (dmul (Fin 0) (dsub (Fin 20) (cp_max_exp_end (predictions d))))
                              (Fin 1000000))
              else f0)"
    by (simp add: m Let_def)
  with d show ?thesis by blast
qed

subsection \<open>The hooks and the length of the horizon\<close>

lemma pre_exec_returns:
  assumes "queue_array dt w = Some f" "num_priorities dt = -1"
  shows "\<exists>d. dmda_pre_exec_hook rt now dt w t = Inr ((), d)"
  using assms
  by (simp add: dmda_pre_exec_hook_def with_fifo_def ebind_def Let_def transfer_is_over_def
        start_computation_def for_buckets_def)

lemma pre_exec_exp_len:
  assumes "dmda_pre_exec_hook rt now dt w t = Inr (u, d)" "queue_array dt w = Some f"
  shows "\<exists>f'. queue_array d w = Some f' \<and>
           exp_len f' =
             (let l1 = (if isnan (predicted_transfer t) then exp_len f
                        else dsub (exp_len f) (predicted_transfer t))
              in if isnan (predicted t) then l1 else dsub l1 (predicted t))"
proof -
  from pre_exec_steps [OF assms(1,2)] obtain f2 f3 where
    a: "(if \<not> isnan (predicted_transfer t)
      then transfer_is_over (ctxs rt) (num_priorities dt) t (predicted_transfer t) (refresh_start now f)
      else Inr (refresh_start now f)) = Inr f2" and
    b: "(if \<not> isnan (predicted t)
      then start_computation (ctxs rt) (num_priorities dt) t (predicted t) f2
      else Inr f2) = Inr f3" and
    c: "queue_array d w = Some (f3\<lparr>exp_end := dadd (exp_start f3) (exp_len f3)\<rparr>)"
    by blast
  have l0: "exp_len (refresh_start now f) = exp_len f"
    by (simp add: refresh_start_def Let_def)
  from a l0 have l2: "exp_len f2 = (if isnan (predicted_transfer t) then exp_len f
                        else dsub (exp_len f) (predicted_transfer t))"
    by (auto split: if_splits dest!: transfer_is_over_fields)
  from b have l3: "exp_len f3 = (if isnan (predicted t) then exp_len f2 else dsub (exp_len f2) (predicted t))"
    by (auto split: if_splits dest!: start_computation_fields)
  from c l2 l3 show ?thesis by (simp add: Let_def)
qed

lemma post_exec_exp_len:
  assumes "queue_array dt w = Some f"
  shows "\<exists>f'. dmda_post_exec_hook now dt w t
                 = Inr ((), dt\<lparr>queue_array := (queue_array dt)(w \<mapsto> f')\<rparr>) \<and>
              exp_len f' = exp_len f"
  using assms
  by (intro exI [of _ "f\<lparr>exp_start := Fin now, exp_end := dadd (Fin now) (exp_len f)\<rparr>"])
     (simp add: dmda_post_exec_hook_def with_fifo_def ebind_def Let_def)

text \<open>
  C5 (as amended). On an attached worker, \<^verbatim>\<open>dmda_pre_exec_hook\<close> subtracts from
  \<^verbatim>\<open>exp_len\<close> the task's transfer model and then its compute model, each when it is not
  NaN, and stores the difference as it is, with no clamp; it cannot fail when the
  priority buckets are disabled. \<^verbatim>\<open>dmda_post_exec_hook\<close> always returns and leaves
  \<^verbatim>\<open>exp_len\<close> unchanged. Nothing keeps \<^verbatim>\<open>exp_len\<close> from becoming negative.
\<close>

theorem hooks_subtract_without_clamp:
  assumes "queue_array dt w = Some f"
  shows "(num_priorities dt = -1 \<longrightarrow> (\<exists>d. dmda_pre_exec_hook rt now dt w t = Inr ((), d))) \<and>
         (\<forall>u d. dmda_pre_exec_hook rt now dt w t = Inr (u, d) \<longrightarrow>
            (\<exists>f'. queue_array d w = Some f' \<and>
               exp_len f' =
                 (let l1 = (if isnan (predicted_transfer t) then exp_len f
                            else dsub (exp_len f) (predicted_transfer t))
                  in if isnan (predicted t) then l1 else dsub l1 (predicted t)))) \<and>
         (\<exists>f'. dmda_post_exec_hook now dt w t
                 = Inr ((), dt\<lparr>queue_array := (queue_array dt)(w \<mapsto> f')\<rparr>) \<and>
              exp_len f' = exp_len f)"
  using pre_exec_returns [OF assms] pre_exec_exp_len [OF _ assms] post_exec_exp_len [OF assms]
  by blast


theorem hooks_subtract_without_clamp_witness:
  "\<exists>d f'. dmda_pre_exec_hook rt_S1 10 dt_S1 0 (task_T\<lparr>predicted := Fin 100\<rparr>) = Inr ((), d) \<and>
          queue_array d 0 = Some f' \<and> exp_len f' = Fin (-100)"
proof -
  let ?t = "task_T\<lparr>predicted := Fin 100\<rparr>"
  have h1: "queue_array dt_S1 0 = Some (mk_fifo [])" by (simp add: dt_S1_def)
  have h2: "num_priorities dt_S1 = -1" by (simp add: dt_S1_def)
  note T = hooks_subtract_without_clamp [OF h1, where rt = rt_S1 and now = 10 and t = ?t]
  from T [THEN conjunct1, rule_format, OF h2] obtain d where
    r: "dmda_pre_exec_hook rt_S1 10 dt_S1 0 ?t = Inr ((), d)" by (elim exE)
  from T [THEN conjunct2, THEN conjunct1, rule_format, OF r] obtain f' where
    q: "queue_array d 0 = Some f'" and
    l: "exp_len f' =
          (let l1 = (if isnan (predicted_transfer ?t) then exp_len (mk_fifo [])
                     else dsub (exp_len (mk_fifo [])) (predicted_transfer ?t))
           in if isnan (predicted ?t) then l1 else dsub l1 (predicted ?t))"
    by (elim exE conjE)
  from l have "exp_len f' = Fin (-100)"
    by (simp add: task_T_def mk_task_def mk_fifo_def)
  with r q show ?thesis by (intro exI conjI)
qed

text \<open>
  C5 as stated promises \<^verbatim>\<open>exp_len >= 0\<close> after every hook. Worker 0 has an empty
  horizon (\<^verbatim>\<open>exp_len = 0\<close>) and the task a compute model of 100: after
  \<^verbatim>\<open>dmda_pre_exec_hook\<close> the FIFO has \<^verbatim>\<open>exp_len = -100\<close>.
\<close>

theorem pre_exec_hook_underflows:
  "dmda_pre_exec_hook rt_S1 10 dt_S1 0 (task_T\<lparr>predicted := Fin 100\<rparr>)
     = Inr ((), dt_S1\<lparr>queue_array := (queue_array dt_S1)
                  (0 \<mapsto> (mk_fifo [])\<lparr>exp_start := Fin 110, exp_len := Fin (-100),
                                        exp_end := Fin 10\<rparr>)\<rparr>) \<and>
   dlt (exp_len ((mk_fifo [])\<lparr>exp_start := Fin 110, exp_len := Fin (-100), exp_end := Fin 10\<rparr>))
       (Fin 0)"
  by (simp add: dmda_pre_exec_hook_def rt_S1_def dt_S1_def with_fifo_def ebind_def
        transfer_is_over_def start_computation_def refresh_start_def task_T_def mk_task_def
        for_buckets_def STARPU_MAX_def mk_fifo_def Let_def)

subsection \<open>The value returned by the commit\<close>

text \<open>
  C6 (as amended). Whenever \<^verbatim>\<open>push_task_on_best_worker\<close> returns, either the chosen
  worker is a master for a child context, the task is handed to that context, the
  policy data is untouched and the function returns 0; or the task is committed into
  the worker's FIFO and the function returns 0 for the insertion at the tail and the
  result of \<^verbatim>\<open>_starpu_fifo_push_sorted_task\<close> for the sorted insertion.
\<close>

theorem push_return_value:
  assumes "push_task_on_best_worker rt now dt t bw p ptr prio c = Inr ((ret, outcome, t'), d)"
  shows "(case outcome of
            Delegated child \<Rightarrow>
              ret = 0 \<and> d = dt \<and> t' = t \<and>
              child = worker_is_master_for_child_ctx rt (nat bw) c \<and>
              child \<noteq> nmax_sched_ctxs rt
          | Committed \<Rightarrow>
              worker_is_master_for_child_ctx rt (nat bw) c = nmax_sched_ctxs rt \<and>
              ret = (if prio then fifo_push_sorted_ret rt else 0))"
proof (cases "worker_is_master_for_child_ctx rt (nat bw) c = nmax_sched_ctxs rt")
  case False
  with assms show ?thesis
    by (auto simp: push_task_on_best_worker_def Let_def split: if_splits)
next
  case True
  with assms have nb: "bw \<noteq> -1"
    and w: "with_fifo dt (nat bw)
                  (\<lambda>fifo.
                     ebind (push_horizon (ctxs rt) (num_priorities dt) now t p ptr fifo)
                       (\<lambda>(pt, f1).
                          let t' = t\<lparr>predicted := p, predicted_transfer := pt\<rparr>
                          in ebind (push_insert rt (num_priorities dt) prio t' f1)
                               (\<lambda>(ret, f2). Inr ((ret, Committed, t'), f2))))
            = Inr ((ret, outcome, t'), d)"
    by (auto simp: push_task_on_best_worker_def Let_def split: if_splits)
  from with_fifo_Inr [OF w] obtain f f' where
    k: "ebind (push_horizon (ctxs rt) (num_priorities dt) now t p ptr f)
                       (\<lambda>(pt, f1).
                          let t' = t\<lparr>predicted := p, predicted_transfer := pt\<rparr>
                          in ebind (push_insert rt (num_priorities dt) prio t' f1)
                               (\<lambda>(ret, f2). Inr ((ret, Committed, t'), f2)))
        = Inr ((ret, outcome, t'), f')"
    by blast
  from ebind_Inr2 [OF k] obtain pt f1 where
    k2: "ebind (push_insert rt (num_priorities dt) prio (t\<lparr>predicted := p, predicted_transfer := pt\<rparr>) f1)
           (\<lambda>(ret, f2). Inr ((ret, Committed, t\<lparr>predicted := p, predicted_transfer := pt\<rparr>), f2))
         = Inr ((ret, outcome, t'), f')"
    by (auto simp: Let_def)
  from ebind_Inr2 [OF k2] obtain ret' f2 where
    pi: "push_insert rt (num_priorities dt) prio (t\<lparr>predicted := p, predicted_transfer := pt\<rparr>) f1
           = Inr (ret', f2)"
    and e: "ret' = ret" "outcome = Committed"
    by auto
  from pi e(1) have "ret = (if prio then fifo_push_sorted_ret rt else 0)"
    by (auto simp: push_insert_def Let_def split: if_splits dest!: ebind_Inr)
  with True e(2) show ?thesis by simp
qed

theorem push_return_value_witness:
  "push_task_on_best_worker rt_S1 10 dt_S1 task_T 1 (Fin 20) (Fin 5) False 0
     = Inr ((0, Committed, task_T\<lparr>predicted := Fin 20, predicted_transfer := Fin 5\<rparr>),
            dt_S1\<lparr>queue_array := (queue_array dt_S1)
              (1 \<mapsto> (mk_fifo [])\<lparr>exp_start := Fin 10, exp_len := Fin 25, exp_end := Fin 35,
                      taskq := [task_T\<lparr>predicted := Fin 20, predicted_transfer := Fin 5\<rparr>],
                      ntasks := 1, nprocessed := 1\<rparr>)\<rparr>) \<and>
   worker_is_master_for_child_ctx rt_S1 (nat 1) 0 = nmax_sched_ctxs rt_S1 \<and>
   (0::int) = (if False then fifo_push_sorted_ret rt_S1 else 0)"
proof -
  have h: "push_task_on_best_worker rt_S1 10 dt_S1 task_T 1 (Fin 20) (Fin 5) False 0
     = Inr ((0, Committed, task_T\<lparr>predicted := Fin 20, predicted_transfer := Fin 5\<rparr>),
            dt_S1\<lparr>queue_array := (queue_array dt_S1)
              (1 \<mapsto> (mk_fifo [])\<lparr>exp_start := Fin 10, exp_len := Fin 25, exp_end := Fin 35,
                      taskq := [task_T\<lparr>predicted := Fin 20, predicted_transfer := Fin 5\<rparr>],
                      ntasks := 1, nprocessed := 1\<rparr>)\<rparr>)"
    by (simp add: push_task_on_best_worker_def rt_S1_def dt_S1_def with_fifo_def ebind_def
          push_horizon_def push_insert_def refresh_start_nan_def residual_transfer_def
          add_to_horizon_def for_buckets_def STARPU_MAX_def mk_fifo_def Let_def)
  from push_return_value [OF h] h show ?thesis by simp
qed

text \<open>
  C6 as stated promises a non-zero value on delegation. Worker 1 leads the child
  context 3: the push is forwarded, no FIFO changes, and the returned value is 0.
\<close>

theorem push_returns_zero_on_delegation:
  "push_task_on_best_worker rt_child 10 dt_S1 task_T 1 (Fin 20) (Fin 5) False 0
     = Inr ((0, Delegated 3, task_T), dt_S1)"
  by (simp add: push_task_on_best_worker_def rt_child_def rt_S1_def Let_def)

subsection \<open>The pending list of \<^verbatim>\<open>dm_push_task\<close>\<close>

lemma ratio_T: "get_task_heter_ratio rt_S1 task_T = Fin (101 / 21)"
  by (simp add: get_task_heter_ratio_def over_candidates_def rt_S1_def heter_max_step_def
        heter_ratio_step_def Let_def dgt_def upt4 bit_1_iff)

lemma splice_before_ok:
  assumes "cursor_ok h c tk"
  shows "\<exists>h'. splice_before h c tk = Inr h' \<and> cursor_ok h' c tk"
  using assms
  by (auto simp: cursor_ok_def splice_before_def get_cell_def set_next_def set_prev_def
        ebind_def split: option.splits)

lemma insert_loop_stuck:
  "insert_loop rt r tk h current = Some y \<Longrightarrow>
     \<forall>c. current = Some c \<longrightarrow> \<not> cursor_ok h c tk"
proof (induction rule: insert_loop.raw_induct [rotated, consumes 1, case_names body])
  case (body loop rt r tk h current y)
  show ?case
  proof (intro allI impI notI)
    fix c assume c: "current = Some c" and ok: "cursor_ok h c tk"
    from ok obtain cc where cc: "h c = Some cc"
      by (auto simp: cursor_ok_def split: option.splits)
    show False
    proof (cases "dgt r (get_task_heter_ratio rt (cell_task cc))")
      case True
      from splice_before_ok [OF ok] obtain h' where
        s: "splice_before h c tk = Inr h'" and ok': "cursor_ok h' c tk" by blast
      from body(2) c cc True s have "loop rt r tk h' current = Some y" by simp
      from body(1) [OF this] c ok' show False by blast
    next
      case False
      from body(2) c cc False have "loop rt r tk h current = Some y" by simp
      from body(1) [OF this] c ok show False by blast
    qed
  qed
qed

lemma insert_loop_diverges:
  "cursor_ok h c tk \<Longrightarrow> insert_loop rt r tk h (Some c) = None"
  using insert_loop_stuck [of rt r tk h "Some c"]
  by (cases "insert_loop rt r tk h (Some c)") auto

lemma dge_not_dgt: "dge a b \<Longrightarrow> \<not> dgt b a"
  by (cases a; cases b) (simp_all add: dgt_def)

text \<open>
  C7. The insertion loop of \<^verbatim>\<open>dm_push_task\<close> never changes \<^verbatim>\<open>current\<close>. Let the
  pending list be non-empty, its head have a successor (linked back to the head), and
  the head's heterogeneity ratio be at least that of the pushed task: then the loop,
  entered at the head's successor, does not return, and neither does \<^verbatim>\<open>dm_push_task\<close>.
\<close>

theorem dm_push_task_insertion_diverges:
  assumes "list_head (main_list dt) = Some first"
    and "h first = Some fc" and "cell_next fc = Some c"
    and "h c = Some cc" and "cell_prev cc = Some first"
    and "h tk = Some tc"
    and "dge (get_task_heter_ratio rt (cell_task fc)) (get_task_heter_ratio rt (cell_task tc))"
  shows "insert_loop rt (get_task_heter_ratio rt (cell_task tc)) tk h (cell_next fc) = None \<and>
         dm_push_task rt now dt h tk = None"
proof -
  have ok: "cursor_ok h c tk"
    using assms(2,4,5,6) by (simp add: cursor_ok_def)
  have l: "insert_loop rt (get_task_heter_ratio rt (cell_task tc)) tk h (cell_next fc) = None"
    using insert_loop_diverges [OF ok] assms(3) by simp
  have "dm_insert rt (main_list dt) h tk = None"
    using assms(1,2,6) dge_not_dgt [OF assms(7)] l
    by (simp add: dm_insert_def get_cell_def Let_def)
  then have "dm_push_task rt now dt h tk = None"
    by (simp add: dm_push_task_def)
  with l show ?thesis by simp
qed


theorem dm_push_task_insertion_diverges_witness:
  "insert_loop rt_S1 (get_task_heter_ratio rt_S1 task_T) 3 heap_two_pending (Some 2) = None \<and>
   dm_push_task rt_S1 10 dt_two_pending heap_two_pending 3 = None"
proof -
  let ?A = "\<lparr>cell_task = task_T, cell_next = Some 2, cell_prev = None\<rparr>"
  let ?B = "\<lparr>cell_task = task_T, cell_next = None, cell_prev = Some 1\<rparr>"
  let ?N = "\<lparr>cell_task = task_T, cell_next = None, cell_prev = None\<rparr>"
  have h1: "list_head (main_list dt_two_pending) = Some 1"
    by (simp add: dt_two_pending_def)
  have h2: "heap_two_pending 1 = Some ?A" by (simp add: heap_two_pending_def)
  have h3: "cell_next ?A = Some 2" by simp
  have h4: "heap_two_pending 2 = Some ?B" by (simp add: heap_two_pending_def)
  have h5: "cell_prev ?B = Some 1" by simp
  have h6: "heap_two_pending 3 = Some ?N" by (simp add: heap_two_pending_def)
  have h7: "dge (get_task_heter_ratio rt_S1 (cell_task ?A))
                (get_task_heter_ratio rt_S1 (cell_task ?N))"
    by (simp add: ratio_T)
  from dm_push_task_insertion_diverges [OF h1 h2 h3 h4 h5 h6 h7, of 10]
  show ?thesis by simp
qed

subsection \<open>Simulated pushes\<close>

lemma fit_init_selected: "selected_from X (fit_init g)"
  by (simp add: selected_from_def fit_init_def)

lemma decide_selected:
  assumes "dmda_decide rt now dt t g c sd = Inr d" and "\<not> cp_unknown (predictions d)"
  shows "\<exists>w k n. (w, k, n) \<in> set (candidates rt t) \<and> dec_best d = int w \<and>
           dec_best_in_ctx d = int k \<and> dec_selected_impl d = int n"
proof -
  from dmda_decide_cases [OF assms(1)] assms(2) have
    ft: "efold (fit_worker_step rt dt t (predictions d)) (workers rt) (fit_init g)
           = Inr (fitnesses d)" and
    b: "dec_best d = ft_best (fitnesses d)" "dec_best d \<noteq> -1"
       "dec_best_in_ctx d = ft_best_in_ctx (fitnesses d)"
       "dec_selected_impl d = ft_selected_impl (fitnesses d)"
    by auto
  have "set (candidates_from rt t (ft_worker_ctx (fit_init g)) (workers rt))
          \<subseteq> set (candidates rt t)"
    by (simp add: candidates_def fit_init_def)
  from fit_outer_selected [OF ft fit_init_selected this] b show ?thesis
    by (auto simp: selected_from_def)
qed

lemma simulate_cases:
  assumes "dmda_push_task_internal rt now dt t g prio c True sd = Inr ((v, t'), dt')"
  shows "dt' = dt \<and>
         (\<exists>d. dmda_decide rt now dt t g c sd = Inr d \<and> read_exp_end rt d = Inr v \<and>
              t' = t\<lparr>nimpl := nat (dec_selected_impl d)\<rparr>)"
proof -
  from ebind_Inr [OF assms [unfolded dmda_push_task_internal_def]] obtain d where
    d: "dmda_decide rt now dt t g c sd = Inr d" and
    k: "ebind (read_exp_end rt d) (\<lambda>v. Inr ((v, t\<lparr>nimpl := nat (dec_selected_impl d)\<rparr>), dt))
          = Inr ((v, t'), dt')"
    by (auto simp: Let_def)
  from ebind_Inr [OF k] d show ?thesis by auto
qed

lemma simulate_returns:
  assumes "dmda_decide rt now dt t g c sd = Inr d" and "\<not> cp_unknown (predictions d)"
  shows "\<exists>v t'. dmda_push_task_internal rt now dt t g prio c True sd = Inr ((v, t'), dt)"
proof -
  from dmda_decide_cases [OF assms(1)] assms(2) have
    cp: "compute_all_performance_predictions rt now dt t g c sd = Inr (predictions d)"
    by auto
  from decide_selected [OF assms] obtain w k n where
    c: "(w, k, n) \<in> set (candidates rt t)" and
    s: "dec_best_in_ctx d = int k" "dec_selected_impl d = int n"
    by blast
  from compute_all_entry [OF cp assms(2) c] have "k < nworkers rt" "n < maximpl rt" by blast+
  with s have "\<exists>v. read_exp_end rt d = Inr v" by (simp add: read_exp_end_def)
  with assms(1) show ?thesis
    by (auto simp: dmda_push_task_internal_def ebind_def Let_def)
qed

text \<open>
  What a simulated push that returns a value does: the policy data is as it was, so
  every FIFO keeps its \<^verbatim>\<open>exp_start\<close>, \<^verbatim>\<open>exp_len\<close>, \<^verbatim>\<open>exp_end\<close>, \<^verbatim>\<open>ntasks\<close>, priority
  buckets and task sequence; the decision came from the fitness loop, which selected
  a candidate; the value is the \<^verbatim>\<open>exp_end\<close> of that candidate, its start plus the
  horizon before it plus its predicted length; and the task carries the selected
  implementation.
\<close>

lemma simulate_push_is_read_only:
  assumes "dmda_push_task_internal rt now dt t g prio c True sd = Inr ((v, t'), dt')"
  shows "dt' = dt \<and>
         (\<exists>d w k n tp fifo prev fn.
            dmda_decide rt now dt t g c sd = Inr d \<and>
            (w, k, n) \<in> set (candidates rt t) \<and>
            dec_best d = int w \<and> dec_best_in_ctx d = int k \<and> dec_selected_impl d = int n \<and>
            t' = t\<lparr>nimpl := n\<rparr> \<and>
            decision_task_prio rt dt t c sd = Inr tp \<and> queue_array dt w = Some fifo \<and>
            cand_prev rt dt t sd tp w fifo n = Inr (prev, fn) \<and>
            v = dadd (dadd (current_exp_start now fifo) prev) (cand_length rt t w n))"
proof -
  from simulate_cases [OF assms] obtain d where
    same: "dt' = dt" and
    d: "dmda_decide rt now dt t g c sd = Inr d" and
    r: "read_exp_end rt d = Inr v" and
    t': "t' = t\<lparr>nimpl := nat (dec_selected_impl d)\<rparr>"
    by blast
  from r have inb: "0 \<le> dec_best_in_ctx d"
    and v: "v = exp_end_arr (predictions d) (nat (dec_best_in_ctx d)) (nat (dec_selected_impl d))"
    by (auto simp: read_exp_end_def split: if_splits)
  from dmda_decide_cases [OF d] inb have nu: "\<not> cp_unknown (predictions d)"
    and cp: "compute_all_performance_predictions rt now dt t g c sd = Inr (predictions d)"
    by auto
  from decide_selected [OF d nu] obtain w k n where
    c: "(w, k, n) \<in> set (candidates rt t)" and
    s: "dec_best d = int w" "dec_best_in_ctx d = int k" "dec_selected_impl d = int n"
    by blast
  from compute_all_entry [OF cp nu c] obtain tp fifo prev fn where
    tp: "decision_task_prio rt dt t c sd = Inr tp" and q: "queue_array dt w = Some fifo" and
    p: "cand_prev rt dt t sd tp w fifo n = Inr (prev, fn)" and
    e: "cp_entry (predictions d) k n = cand_entry rt t w n (current_exp_start now fifo) prev"
    by blast
  from e have "exp_end_arr (predictions d) k n
       = dadd (dadd (current_exp_start now fifo) prev) (cand_length rt t w n)"
    by (simp add: cp_entry_def cand_entry_def)
  with v s have v': "v = dadd (dadd (current_exp_start now fifo) prev) (cand_length rt t w n)"
    by simp
  from t' s have t'': "t' = t\<lparr>nimpl := n\<rparr>" by simp
  from same d c s t'' tp q p v' show ?thesis by blast
qed

text \<open>On the calibrated two-worker machine the simulated push returns, and commits nothing.\<close>

lemma simulate_push_is_read_only_S1:
  "\<exists>v n. dmda_push_task_internal rt_S1 0 dt_S1 task_T (\<lambda>_ _. NaN) False 0 True False
            = Inr ((v, task_T\<lparr>nimpl := n\<rparr>), dt_S1)"
proof -
  from dmda_decide_S1 obtain d where
    d: "dmda_decide rt_S1 0 dt_S1 task_T (\<lambda>_ _. NaN) 0 False = Inr d" by blast
  from dmda_decide_cases [OF d] obtain cp where
    cp: "compute_all_performance_predictions rt_S1 0 dt_S1 task_T (\<lambda>_ _. NaN) 0 False = Inr cp"
    and p: "predictions d = cp" by blast
  from cp_compute_unknown(1) [OF cp] no_bad_S1 p have nu: "\<not> cp_unknown (predictions d)"
    by simp
  from simulate_returns [OF d nu, of False] obtain v t' where
    r: "dmda_push_task_internal rt_S1 0 dt_S1 task_T (\<lambda>_ _. NaN) False 0 True False
          = Inr ((v, t'), dt_S1)" by blast
  from simulate_push_is_read_only [OF r] obtain n where "t' = task_T\<lparr>nimpl := n\<rparr>" by blast
  with r show ?thesis by blast
qed

text \<open>
  C8. On the two-worker platform \<open>rt_S3\<close>, whose CPU model is not calibrated, the
  simulated push \<^verbatim>\<open>dmda_simulate_push_task\<close> does not return the predicted \<^verbatim>\<open>exp_end\<close> of
  the selected candidate: the greedy fallback forces the worker without setting
  \<^verbatim>\<open>best_in_ctx\<close>, and the value returned is read outside the array \<^verbatim>\<open>exp_end\<close>.
\<close>

theorem simulate_push_unknown_reads_out_of_bounds:
  "dmda_simulate_push_task rt_S3 10 dt_S1 task_T (\<lambda>_ _. NaN) = Inl OutOfBounds"
proof -
  from dmda_decide_S3 obtain d where
    d: "dmda_decide rt_S3 10 dt_S1 task_T (\<lambda>_ _. NaN) 0 False = Inr d" by blast
  from dmda_decide_cases [OF d] obtain cp where
    cp: "compute_all_performance_predictions rt_S3 10 dt_S1 task_T (\<lambda>_ _. NaN) 0 False = Inr cp"
    and p: "predictions d = cp" and
    cs: "(cp_unknown cp \<and> dec_best_in_ctx d = -1) \<or> \<not> cp_unknown cp" by blast
  from cp_compute_unknown(1) [OF cp] eligible_S3 have "cp_unknown cp" by blast
  with cs have "dec_best_in_ctx d = -1" by simp
  then have "read_exp_end rt_S3 d = Inl OutOfBounds" by (simp add: read_exp_end_def)
  with d show ?thesis
    by (simp add: dmda_simulate_push_task_def dmda_push_task_internal_def ebind_def Let_def
          task_T_def mk_task_def)
qed


subsection \<open>The array read that ends a simulated push\<close>

text \<open>
  C9. On the two-worker platform \<open>rt_S3\<close>, whose CPU model is not calibrated, a
  candidate is unknown and the greedy fallback forces the worker: \<^verbatim>\<open>best_in_ctx\<close> keeps
  its initial value \<open>-1\<close>, and the final read \<^verbatim>\<open>exp_end[best_in_ctx][selected_impl]\<close>
  of a simulated push is out of bounds, for either value of \<^verbatim>\<open>prio\<close>.
\<close>

theorem simulate_final_read_out_of_bounds:
  "dmda_push_task_internal rt_S3 10 dt_S1 task_T (\<lambda>_ _. NaN) False 0 True False
     = Inl OutOfBounds \<and>
   dmda_push_task_internal rt_S3 10 dt_S1 task_T (\<lambda>_ _. NaN) True 0 True False
     = Inl OutOfBounds"
proof -
  from dmda_decide_S3 obtain d where
    d: "dmda_decide rt_S3 10 dt_S1 task_T (\<lambda>_ _. NaN) 0 False = Inr d" by blast
  from dmda_decide_cases [OF d] obtain cp where
    cp: "compute_all_performance_predictions rt_S3 10 dt_S1 task_T (\<lambda>_ _. NaN) 0 False = Inr cp"
    and p: "predictions d = cp" and
    cs: "(cp_unknown cp \<and> dec_best_in_ctx d = -1) \<or> \<not> cp_unknown cp" by blast
  from cp_compute_unknown(1) [OF cp] eligible_S3 have "cp_unknown cp" by blast
  with cs have "dec_best_in_ctx d = -1" by simp
  then have "read_exp_end rt_S3 d = Inl OutOfBounds" by (simp add: read_exp_end_def)
  with d show ?thesis
    by (simp add: dmda_push_task_internal_def ebind_def Let_def)
qed

subsection \<open>Priority normalisation\<close>

text \<open>
  C10. A context that sets its minimum and its maximum priority to the same value gets
  \<^verbatim>\<open>num_priorities = 1\<close> from \<^verbatim>\<open>initialize_dmda_policy\<close>, so the priority buckets are
  enabled, and \<^verbatim>\<open>_normalize_prio\<close> then divides by \<^verbatim>\<open>max - min = 0\<close>.
\<close>

theorem normalize_prio_divides_by_zero:
  "init_num_priorities ctx_single = 1 \<and>
   init_num_priorities ctx_single \<noteq> -1 \<and>
   normalize_prio (\<lambda>_. ctx_single) 0 (init_num_priorities ctx_single) 0 = Inl DivByZero"
  by (simp add: init_num_priorities_def ctx_single_def normalize_prio_def)

end
